theory Spec2Isabelle
  imports Main "HOL-Library.Char_ord" "HOL-Library.List_Lexorder" "HOL-Library.Word"
begin

section \<open>Error values\<close>

text \<open>
  The Go code builds its errors with \<^verbatim>\<open>fmt.Errorf\<close>. Each format string of the source is
  one constructor here, and the constructor's arguments are the arguments of the format
  string, in the source's order. \<open>EOF\<close> is \<^verbatim>\<open>io.EOF\<close>, \<open>ErrExist\<close> is the sentinel
  \<^verbatim>\<open>os.ErrExist\<close>, \<open>PathError\<close> and \<open>LinkError\<close> are the structured errors that the
  \<^verbatim>\<open>os\<close> package returns from \<^verbatim>\<open>Open\<close>, \<^verbatim>\<open>OpenFile\<close> and \<^verbatim>\<open>Rename\<close>, and
  \<open>Other\<close> stands for any error produced by an external collaborator (a destination, the
  codec, the application's callbacks).
\<close>

datatype error =
    EOF
  | ErrExist
  | PathError string string string
  | LinkError string string string string
  | BasepathChars
  | BasepathInvalid error
  | ErrorOpening string error
  | CannotDetermine string
  | NoExistingLog string
  | TooManyLogFiles
  | CannotCreate error
  | CannotRotate
  | StartRotateNotCalled
  | FirstLogSuffix string string
  | NewLogSuffix string string
  | OldLogSuffix string string string
  | Uninitialized
  | NotImplemented
  | ReplayDecodeFailed nat nat error
  | ReplayFailed nat error
  | Other string

section \<open>Strings and the file system\<close>

definition HasPrefix :: "string \<Rightarrow> string \<Rightarrow> bool" where
  "HasPrefix s pre = (take (length pre) s = pre)"

definition HasSuffix :: "string \<Rightarrow> string \<Rightarrow> bool" where
  "HasSuffix s suf = (length suf \<le> length s \<and> drop (length s - length suf) s = suf)"

definition TrimSuffix :: "string \<Rightarrow> string \<Rightarrow> string" where
  "TrimSuffix s suf = (if HasSuffix s suf then take (length s - length suf) s else s)"

definition ContainsAny :: "string \<Rightarrow> string \<Rightarrow> bool" where
  "ContainsAny s chars = (\<exists>c \<in> set s. c \<in> set chars)"

definition newExt :: string where "newExt = ''-new.plog''"
definition currExt :: string where "currExt = ''-curr.plog''"
definition oldExt :: string where "oldExt = ''-old.plog''"

text \<open>The characters \<^verbatim>\<open>*?[\.\<close> that \<^verbatim>\<open>NewFileDest\<close> refuses in a basepath.\<close>

definition basepathMeta :: string where
  "basepathMeta = [CHR ''*'', CHR ''?'', CHR ''['', CHR 0x5C, CHR ''.'']"

text \<open>
  The file system as the code sees it: the directories that exist and the files, each
  under its full path name. A file has its bytes and a flag that says whether the
  process may open it for reading. Directory entries are not themselves listed among the
  files, so a directory is never returned by \<open>Glob\<close>.
\<close>

datatype fnode = File (content: string) (readable: bool)

record fsys =
  dirs :: "string list"
  files :: "(string \<times> fnode) list"

text \<open>An open \<^verbatim>\<open>*os.File\<close>, identified by the name it was opened under.\<close>

datatype osFile = OsFile (Name: string)

definition dirname :: "string \<Rightarrow> string" where
  "dirname p = rev (drop 1 (dropWhile (\<lambda>c. c \<noteq> CHR ''/'') (rev p)))"

text \<open>
  \<^verbatim>\<open>filepath.Glob(pre + "*" + suf)\<close> for the two shapes of pattern the code uses:
  a literal prefix, one star, a literal suffix. The star matches any run of characters
  other than the path separator. Go returns the matches of one directory sorted, and
  returns an error only for a malformed pattern, which a pattern of this shape is not.
\<close>

definition glob_match :: "string \<Rightarrow> string \<Rightarrow> string \<Rightarrow> bool" where
  "glob_match pre suf p =
     (HasPrefix p pre \<and> HasSuffix p suf \<and> length pre + length suf \<le> length p \<and>
      CHR ''/'' \<notin> set (drop (length pre) (take (length p - length suf) p)))"

definition Glob :: "fsys \<Rightarrow> string \<Rightarrow> string \<Rightarrow> error + string list" where
  "Glob fs pre suf = Inr (sort (filter (glob_match pre suf) (map fst (files fs))))"

definition os_Open :: "fsys \<Rightarrow> string \<Rightarrow> error + osFile" where
  "os_Open fs p =
     (case map_of (files fs) p of
        None \<Rightarrow> Inl (PathError ''open'' p ''no such file or directory'')
      | Some f \<Rightarrow>
          if readable f then Inr (OsFile p)
          else Inl (PathError ''open'' p ''permission denied''))"

text \<open>\<^verbatim>\<open>os.OpenFile(p, os.O_WRONLY|os.O_CREATE|os.O_EXCL, 0660)\<close>.\<close>

definition os_OpenFile :: "fsys \<Rightarrow> string \<Rightarrow> fsys \<times> (error + osFile)" where
  "os_OpenFile fs p =
     (if p \<in> set (map fst (files fs)) then (fs, Inl (PathError ''open'' p ''file exists''))
      else if dirname p \<notin> set (dirs fs)
        then (fs, Inl (PathError ''open'' p ''no such file or directory''))
      else (fs\<lparr>files := files fs @ [(p, File [] True)]\<rparr>, Inr (OsFile p)))"

text \<open>
  \<^verbatim>\<open>os.Rename(old, new)\<close>: the file keeps its bytes and takes the new name, replacing
  whatever file had that name.
\<close>

definition os_Rename :: "fsys \<Rightarrow> string \<Rightarrow> string \<Rightarrow> fsys \<times> error option" where
  "os_Rename fs old new =
     (case map_of (files fs) old of
        None \<Rightarrow> (fs, Some (LinkError ''rename'' old new ''no such file or directory''))
      | Some f \<Rightarrow>
          if old = new then (fs, None)
          else (fs\<lparr>files := map (\<lambda>(p, g). if p = old then (new, g) else (p, g))
                               (filter (\<lambda>(p, g). p \<noteq> new) (files fs))\<rparr>, None))"

section \<open>The file destination\<close>

record fileDest =
  basepath :: string
  replayReaders :: "osFile list"
  outputFile :: "osFile option"
  outputFilename :: string
  oldFilename :: string
  snapOK :: bool

text \<open>
  The loop of \<^verbatim>\<open>createNewFile\<close> over the characters from the backquote (no suffix) to
  \<^verbatim>\<open>z\<close>. The error of \<open>Glob\<close> is dropped by the source, which then sees no match.
  \<open>os_OpenFile\<close> never returns the sentinel \<open>ErrExist\<close> itself (it wraps the cause in a
  \<open>PathError\<close>), so any failure to create leaves the loop at once.
\<close>

fun createNewFile_loop ::
  "fsys \<Rightarrow> string \<Rightarrow> string \<Rightarrow> string \<Rightarrow> fsys \<times> (error + osFile \<times> string)" where
  "createNewFile_loop fs name ext [] = (fs, Inl TooManyLogFiles)"
| "createNewFile_loop fs name ext (i # rest) =
     (let n = (if i \<noteq> CHR 0x60 then name @ [i] else name);
          m = (case Glob fs n [] of Inr m \<Rightarrow> m | Inl _ \<Rightarrow> [])
      in if length m > 0 then createNewFile_loop fs name ext rest
         else (case os_OpenFile fs (n @ ext) of
                 (fs', Inr fd) \<Rightarrow> (fs', Inr (fd, n @ ext))
               | (fs', Inl err) \<Rightarrow>
                   if err \<noteq> ErrExist then (fs', Inl err)
                   else createNewFile_loop fs' name ext rest))"

definition createNewFile :: "fsys \<Rightarrow> string \<Rightarrow> string \<Rightarrow> fsys \<times> (error + osFile \<times> string)" where
  "createNewFile fs name ext =
     createNewFile_loop fs name ext (CHR 0x60 # ''abcdefghijklmnopqrstuvwxyz'')"

text \<open>
  \<^verbatim>\<open>startNew\<close>; the argument \<open>date\<close> is the current UTC time formatted with
  \<^verbatim>\<open>dateFmt\<close>, that is \<^verbatim>\<open>-YYYYMMDD-HHMMSS\<close>.
\<close>

definition startNew :: "fsys \<Rightarrow> string \<Rightarrow> fileDest \<Rightarrow> bool \<Rightarrow> fsys \<times> fileDest \<times> error option" where
  "startNew fs date fd useNewExt =
     (let name = basepath fd @ date;
          ext = (if useNewExt then newExt else currExt)
      in case createNewFile fs name ext of
           (fs', Inl err) \<Rightarrow> (fs', fd, Some (CannotCreate err))
         | (fs', Inr (outF, outFn)) \<Rightarrow>
             (fs', fd\<lparr>outputFile := Some outF, outputFilename := outFn, snapOK := False\<rparr>, None))"

text \<open>
  \<^verbatim>\<open>NewFileDest\<close>. The inner \<open>if\<close> is the classification of the sorted enumeration; each
  early \<^verbatim>\<open>return nil, err\<close> of the source is an \<open>Inl\<close>. When \<open>startNew\<close> fails the
  source closes the replay readers and returns no destination.
\<close>

definition NewFileDest :: "fsys \<Rightarrow> string \<Rightarrow> string \<Rightarrow> bool \<Rightarrow> fsys \<times> (error + fileDest)" where
  "NewFileDest fs date bp create =
     (if ContainsAny bp basepathMeta then (fs, Inl BasepathChars)
      else case Glob fs bp ''.plog'' of
        Inl err \<Rightarrow> (fs, Inl (BasepathInvalid err))
      | Inr m0 \<Rightarrow>
          let fd = \<lparr>basepath = bp, replayReaders = [], outputFile = None,
                    outputFilename = [], oldFilename = [], snapOK = False\<rparr>;
              m = sort m0;
              lm = length m - 1
          in case (if length m > 0 then
                     (if HasSuffix (m ! lm) currExt then
                        (case os_Open fs (m ! lm) of
                           Inl err \<Rightarrow> Inl (ErrorOpening (m ! lm) err)
                         | Inr f0 \<Rightarrow> Inr (fd\<lparr>replayReaders := [f0], oldFilename := m ! lm\<rparr>))
                      else if HasSuffix (m ! lm) newExt \<and> lm > 0 \<and>
                              HasSuffix (m ! (lm - 1)) currExt then
                        (case os_Open fs (m ! (lm - 1)) of
                           Inl err \<Rightarrow> Inl (ErrorOpening (m ! (lm - 1)) err)
                         | Inr f0 \<Rightarrow>
                             (case os_Open fs (m ! lm) of
                                Inl err \<Rightarrow> Inl (ErrorOpening (m ! lm) err)
                              | Inr f1 \<Rightarrow>
                                  Inr (fd\<lparr>replayReaders := [f0, f1], oldFilename := m ! lm\<rparr>)))
                      else Inl (CannotDetermine bp))
                   else if \<not> create then Inl (NoExistingLog bp)
                   else Inr fd) of
               Inl err \<Rightarrow> (fs, Inl err)
             | Inr fd1 \<Rightarrow>
                 (case startNew fs date fd1 (length m > 0) of
                    (fs', fd2, Some err) \<Rightarrow> (fs', Inl err)
                  | (fs', fd2, None) \<Rightarrow> (fs', Inr fd2)))"

definition StartRotate :: "fsys \<Rightarrow> string \<Rightarrow> fileDest \<Rightarrow> fsys \<times> fileDest \<times> error option" where
  "StartRotate fs date fd =
     (if \<not> snapOK fd then (fs, fd, Some CannotRotate)
      else startNew fs date
             (fd\<lparr>outputFile := None, oldFilename := outputFilename fd, outputFilename := []\<rparr>)
             True)"

definition EndRotate :: "fsys \<Rightarrow> fileDest \<Rightarrow> fsys \<times> fileDest \<times> error option" where
  "EndRotate fs fd =
     (if snapOK fd then (fs, fd, Some StartRotateNotCalled)
      else if oldFilename fd = [] then
        (if \<not> HasSuffix (outputFilename fd) currExt
           then (fs, fd, Some (FirstLogSuffix (outputFilename fd) currExt))
         else (fs, fd\<lparr>snapOK := True\<rparr>, None))
      else if \<not> HasSuffix (outputFilename fd) newExt
        then (fs, fd, Some (NewLogSuffix (outputFilename fd) newExt))
      else
        let newName = TrimSuffix (outputFilename fd) newExt @ currExt
        in case os_Rename fs (outputFilename fd) newName of
             (fs1, Some err) \<Rightarrow> (fs1, fd, Some err)
           | (fs1, None) \<Rightarrow>
               let fd1 = fd\<lparr>outputFilename := newName\<rparr>
               in case (if HasSuffix (oldFilename fd1) currExt
                          then Inr (TrimSuffix (oldFilename fd1) currExt @ oldExt)
                        else if HasSuffix (oldFilename fd1) newExt
                          then Inr (TrimSuffix (oldFilename fd1) newExt @ oldExt)
                        else Inl (OldLogSuffix (oldFilename fd1) currExt newExt)) of
                    Inl err \<Rightarrow> (fs1, fd1, Some err)
                  | Inr oldName \<Rightarrow>
                      (case os_Rename fs1 (oldFilename fd1) oldName of
                         (fs2, Some err) \<Rightarrow> (fs2, fd1, Some err)
                       | (fs2, None) \<Rightarrow>
                           (fs2, fd1\<lparr>oldFilename := [], snapOK := True\<rparr>, None)))"

text \<open>The sorted enumeration of the segments of a basepath, as \<open>NewFileDest\<close> computes it.\<close>

definition enumeration :: "fsys \<Rightarrow> string \<Rightarrow> string list" where
  "enumeration fs bp = (case Glob fs bp ''.plog'' of Inr m \<Rightarrow> sort m | Inl _ \<Rightarrow> [])"

text \<open>
  The name stems \<open>createNewFile\<close> tries, in its order: the undecorated name, then the
  name followed by one letter from \<^verbatim>\<open>a\<close> to \<^verbatim>\<open>z\<close>. A stem is taken when the name of
  some existing file begins with it (and continues within the same directory).
\<close>

definition stems :: "string \<Rightarrow> string list" where
  "stems name = name # map (\<lambda>i. name @ [i]) ''abcdefghijklmnopqrstuvwxyz''"

definition taken :: "fsys \<Rightarrow> string \<Rightarrow> bool" where
  "taken fs n = (\<exists>p \<in> set (map fst (files fs)). glob_match n [] p)"

text \<open>
  A caller's use of an open destination: a sequence of calls to \<open>StartRotate\<close> (each at
  some time of day) and \<open>EndRotate\<close>. \<open>run_calls\<close> performs them in order and remembers
  the last call that returned no error.
\<close>

datatype fd_call = CallStartRotate string | CallEndRotate

fun do_call :: "fsys \<Rightarrow> fileDest \<Rightarrow> fd_call \<Rightarrow> fsys \<times> fileDest \<times> error option" where
  "do_call fs fd (CallStartRotate date) = StartRotate fs date fd"
| "do_call fs fd CallEndRotate = EndRotate fs fd"

fun run_calls ::
  "fsys \<Rightarrow> fileDest \<Rightarrow> fd_call option \<Rightarrow> fd_call list \<Rightarrow> fsys \<times> fileDest \<times> fd_call option" where
  "run_calls fs fd lastOK [] = (fs, fd, lastOK)"
| "run_calls fs fd lastOK (c # cs) =
     (case do_call fs fd c of
        (fs', fd', None) \<Rightarrow> run_calls fs' fd' (Some c) cs
      | (fs', fd', Some err) \<Rightarrow> run_calls fs' fd' lastOK cs)"

section \<open>The concatenating reader\<close>

text \<open>
  An \<^verbatim>\<open>io.ReadCloser\<close> is an object of some state type \<open>'r\<close> with two methods.
  \<open>rRead r k\<close> is \<^verbatim>\<open>Read(p)\<close> for a buffer of \<open>k\<close> bytes: it returns the reader's new
  state, the bytes it put into the buffer (their number is Go's \<^verbatim>\<open>n\<close>) and the error.
  \<open>rClose\<close> is \<^verbatim>\<open>Close()\<close>.
\<close>

record 'r ReadCloser =
  rRead :: "'r \<Rightarrow> nat \<Rightarrow> 'r \<times> string \<times> error option"
  rClose :: "'r \<Rightarrow> 'r \<times> error option"

text \<open>
  \<^verbatim>\<open>multiReadCloser\<close>: the field \<open>readClosers\<close> of the source, and beside it the readers
  that \<open>Read\<close> and \<open>Close\<close> have closed and dropped from the list, in the order and in
  the state in which they were closed (in Go they live on in the heap).
\<close>

record 'r multiReadCloser =
  readClosers :: "'r list"
  closed :: "'r list"

definition MultiReadCloser :: "'r list \<Rightarrow> 'r multiReadCloser" where
  "MultiReadCloser readers = \<lparr>readClosers = readers, closed = []\<rparr>"

fun mr_Read_loop ::
  "'r ReadCloser \<Rightarrow> 'r list \<Rightarrow> 'r list \<Rightarrow> nat \<Rightarrow> ('r list \<times> 'r list) \<times> string \<times> error option" where
  "mr_Read_loop ops [] cl k = (([], cl), [], Some EOF)"
| "mr_Read_loop ops (r # rs) cl k =
     (case rRead ops r k of
        (r', bs, err) \<Rightarrow>
          if length bs > 0 \<or> err \<noteq> Some EOF
          then ((r' # rs, cl), bs, if err = Some EOF then None else err)
          else mr_Read_loop ops rs (cl @ [fst (rClose ops r')]) k)"

definition mr_Read ::
  "'r ReadCloser \<Rightarrow> 'r multiReadCloser \<Rightarrow> nat \<Rightarrow> 'r multiReadCloser \<times> string \<times> error option" where
  "mr_Read ops mr k =
     (case mr_Read_loop ops (readClosers mr) (closed mr) k of
        ((rs, cl), bs, err) \<Rightarrow> (mr\<lparr>readClosers := rs, closed := cl\<rparr>, bs, err))"

fun mr_Close_loop ::
  "'r ReadCloser \<Rightarrow> 'r list \<Rightarrow> 'r list \<Rightarrow> error option \<Rightarrow> 'r list \<times> error option" where
  "mr_Close_loop ops [] cl err = (cl, err)"
| "mr_Close_loop ops (r # rs) cl err =
     (case rClose ops r of
        (r', e) \<Rightarrow> mr_Close_loop ops rs (cl @ [r']) (if err = None then e else err))"

definition mr_Close ::
  "'r ReadCloser \<Rightarrow> 'r multiReadCloser \<Rightarrow> 'r multiReadCloser \<times> error option" where
  "mr_Close ops mr =
     (case mr_Close_loop ops (readClosers mr) (closed mr) None of
        (cl, err) \<Rightarrow> (mr\<lparr>readClosers := [], closed := cl\<rparr>, err))"

text \<open>
  A source is exhausted when its \<open>Read\<close> returns no bytes and \<^verbatim>\<open>io.EOF\<close>; \<open>drained\<close> is
  the state a reader is left in by one such \<open>Read\<close> followed by \<open>Close\<close>.
\<close>

definition exhausted :: "'r ReadCloser \<Rightarrow> nat \<Rightarrow> 'r \<Rightarrow> bool" where
  "exhausted ops k r = (case rRead ops r k of (r', bs, err) \<Rightarrow> bs = [] \<and> err = Some EOF)"

definition drained :: "'r ReadCloser \<Rightarrow> nat \<Rightarrow> 'r \<Rightarrow> 'r" where
  "drained ops k r = fst (rClose ops (fst (rRead ops r k)))"

text \<open>Later calls on a concatenating reader, and the results they return in order.\<close>

datatype mr_call = CallRead nat | CallClose

fun mr_run ::
  "'r ReadCloser \<Rightarrow> 'r multiReadCloser \<Rightarrow> mr_call list \<Rightarrow>
     'r multiReadCloser \<times> (string \<times> error option) list" where
  "mr_run ops mr [] = (mr, [])"
| "mr_run ops mr (CallRead k # cs) =
     (case mr_Read ops mr k of
        (mr', bs, err) \<Rightarrow> (case mr_run ops mr' cs of (mr'', res) \<Rightarrow> (mr'', (bs, err) # res)))"
| "mr_run ops mr (CallClose # cs) =
     (case mr_Close ops mr of
        (mr', err) \<Rightarrow> (case mr_run ops mr' cs of (mr'', res) \<Rightarrow> (mr'', ([], err) # res)))"

text \<open>
  A reader over a byte string, for concrete runs: it hands out its bytes, then reports
  \<^verbatim>\<open>io.EOF\<close>; a broken one fails with its error; a closed one refuses to read or to be
  closed again, as a closed \<^verbatim>\<open>*os.File\<close> does.
\<close>

record bufReader =
  pending :: string
  broken :: "error option"
  isClosed :: bool

definition buf_ops :: "bufReader ReadCloser" where
  "buf_ops =
     \<lparr>rRead = (\<lambda>r k.
         if isClosed r then (r, [], Some (Other ''file already closed''))
         else if broken r \<noteq> None then (r, [], broken r)
         else if pending r = [] then (r, [], Some EOF)
         else (r\<lparr>pending := drop k (pending r)\<rparr>, take k (pending r), None)),
       rClose = (\<lambda>r.
         if isClosed r then (r, Some (Other ''file already closed''))
         else (r\<lparr>isClosed := True\<rparr>, None))\<rparr>"

section \<open>The log coordinator\<close>

text \<open>
  The collaborators of the coordinator are interfaces in the source; each is a state type
  and a record of its methods here. A \<^verbatim>\<open>LogDestination\<close> has state \<open>'d\<close>; \<open>dWrite\<close>
  returns the new state, the count \<^verbatim>\<open>n\<close> and the error. The codec (\<^verbatim>\<open>gob\<close>) has
  encoder state \<open>'n\<close>: \<open>NewEncoder\<close> is a fresh encoder, and \<open>encode\<close> gives, for one
  event, the encoder's new state, the chunks of bytes it hands to its sink in order, and
  the error of the encoding itself, if any. The application is a \<^verbatim>\<open>LogClient\<close> with
  state \<open>'c\<close>; \<open>PersistAll\<close> gives the events it passes to \<open>Output\<close>, in order.
\<close>

record 'd LogDestination =
  dWrite :: "'d \<Rightarrow> string \<Rightarrow> 'd \<times> int \<times> error option"
  dStartRotate :: "'d \<Rightarrow> 'd \<times> error option"
  dEndRotate :: "'d \<Rightarrow> 'd \<times> error option"

record ('n, 'e) Codec =
  NewEncoder :: 'n
  encode :: "'n \<Rightarrow> 'e \<Rightarrow> 'n \<times> string list \<times> error option"

record ('c, 'e) LogClient =
  Replay :: "'c \<Rightarrow> 'e \<Rightarrow> 'c \<times> error option"
  PersistAll :: "'c \<Rightarrow> 'e list"

text \<open>
  \<^verbatim>\<open>pLog\<close>. The field \<^verbatim>\<open>size\<close> is \<open>size_pl\<close> here; the counters are Go \<^verbatim>\<open>int\<close>s, far
  from their bounds, and \<open>objects\<close> is a \<^verbatim>\<open>uint64\<close>. \<open>pLogError\<close> is the package-level
  variable of that name, which only gates a log line. The logger, the mutex and the
  client reference are left out: every function below is one critical section.
\<close>

record ('d, 'n) pLog =
  size_pl :: int
  sizeLimit :: int
  sizeReplay :: int
  objects :: "64 word"
  encoder :: "'n option"
  priDest :: 'd
  secDest :: "'d option"
  rotating :: bool
  errState :: "error option"
  pLogError :: bool

definition SetSizeLimit :: "('d, 'n) pLog \<Rightarrow> int \<Rightarrow> ('d, 'n) pLog" where
  "SetSizeLimit pl bytes = pl\<lparr>sizeLimit := bytes\<rparr>"

definition HealthCheck :: "('d, 'n) pLog \<Rightarrow> error option" where
  "HealthCheck pl = errState pl"

text \<open>\<^verbatim>\<open>pLog.Write\<close>, the sink the encoder writes to.\<close>

definition Write ::
  "'d LogDestination \<Rightarrow> ('d, 'n) pLog \<Rightarrow> string \<Rightarrow> ('d, 'n) pLog \<times> int \<times> error option" where
  "Write dst pl p =
     (if errState pl \<noteq> None then (pl, 0, errState pl)
      else
        let l = int (length p);
            pl1 = (if \<not> rotating pl then pl\<lparr>size_pl := size_pl pl + int (length p)\<rparr>
                   else pl\<lparr>sizeReplay := sizeReplay pl + int (length p)\<rparr>)
        in case dWrite dst (priDest pl1) p of
             (d', n, err) \<Rightarrow>
               let pl2 = pl1\<lparr>priDest := d'\<rparr>
               in if n \<noteq> l \<or> err \<noteq> None then (pl2\<lparr>errState := err\<rparr>, n, err)
                  else (case secDest pl2 of
                          None \<Rightarrow> (pl2, n, None)
                        | Some s \<Rightarrow> (pl2\<lparr>secDest := Some (fst (dWrite dst s p))\<rparr>, n, None)))"

text \<open>
  \<^verbatim>\<open>pl.encoder.Encode\<close>: the encoder writes its chunks to the sink and stops at the
  first write that returns an error, which is then the error of \<^verbatim>\<open>Encode\<close>.
\<close>

fun write_chunks ::
  "'d LogDestination \<Rightarrow> ('d, 'n) pLog \<Rightarrow> string list \<Rightarrow> ('d, 'n) pLog \<times> error option" where
  "write_chunks dst pl [] = (pl, None)"
| "write_chunks dst pl (p # ps) =
     (case Write dst pl p of
        (pl', n, Some err) \<Rightarrow> (pl', Some err)
      | (pl', n, None) \<Rightarrow> write_chunks dst pl' ps)"

definition Encode ::
  "'d LogDestination \<Rightarrow> ('n, 'e) Codec \<Rightarrow> ('d, 'n) pLog \<Rightarrow> 'n \<Rightarrow> 'e \<Rightarrow>
     ('d, 'n) pLog \<times> error option" where
  "Encode dst cdc pl n ev =
     (case encode cdc n ev of
        (n', chunks, own) \<Rightarrow>
          (case write_chunks dst pl chunks of
             (pl', werr) \<Rightarrow>
               (pl'\<lparr>encoder := Some n'\<rparr>, case werr of Some e \<Rightarrow> Some e | None \<Rightarrow> own)))"

text \<open>
  \<^verbatim>\<open>rotate\<close>; the flag returned says whether the task \<^verbatim>\<open>finishRotate\<close> was started
  (\<^verbatim>\<open>go pl.finishRotate()\<close>).
\<close>

definition rotate :: "('d, 'n) pLog \<Rightarrow> ('d, 'n) pLog \<times> bool" where
  "rotate pl = (if rotating pl then (pl, False) else (pl\<lparr>rotating := True\<rparr>, True))"

text \<open>\<^verbatim>\<open>Output\<close> returns the coordinator, the error, and whether a rotation task was started.\<close>

definition Output ::
  "'d LogDestination \<Rightarrow> ('n, 'e) Codec \<Rightarrow> ('d, 'n) pLog \<Rightarrow> 'e \<Rightarrow>
     ('d, 'n) pLog \<times> error option \<times> bool" where
  "Output dst cdc pl ev =
     (if errState pl \<noteq> None then (pl\<lparr>pLogError := True\<rparr>, errState pl, False)
      else
        let pl0 = pl\<lparr>pLogError := False\<rparr>
        in case encoder pl0 of
             None \<Rightarrow> (pl0, Some Uninitialized, False)
           | Some n \<Rightarrow>
               (case Encode dst cdc (pl0\<lparr>objects := objects pl0 + 1\<rparr>) n ev of
                  (pl2, err) \<Rightarrow>
                    if err \<noteq> None then (pl2\<lparr>errState := err\<rparr>, err, False)
                    else if \<not> rotating pl2 \<and> size_pl pl2 > sizeLimit pl2
                      then (case rotate pl2 of (pl3, started) \<Rightarrow> (pl3, err, started))
                    else (pl2, err, False)))"

text \<open>A run of \<open>Output\<close> calls whose results the callers drop, as \<open>PersistAll\<close> does.\<close>

fun outputs ::
  "'d LogDestination \<Rightarrow> ('n, 'e) Codec \<Rightarrow> ('d, 'n) pLog \<Rightarrow> 'e list \<Rightarrow> ('d, 'n) pLog" where
  "outputs dst cdc pl [] = pl"
| "outputs dst cdc pl (ev # evs) = outputs dst cdc (fst (Output dst cdc pl ev)) evs"

text \<open>
  \<^verbatim>\<open>finishRotate\<close> holds the lock twice: up to the call of \<open>PersistAll\<close>
  (\<open>finishRotate_start\<close>, whose flag says whether it goes on) and after it
  (\<open>finishRotate_end\<close>). In between, \<open>evs\<close> are the events passed to \<open>Output\<close> by
  \<open>PersistAll\<close> and by any other caller, in the order in which they took the lock.
\<close>

definition finishRotate_start ::
  "'d LogDestination \<Rightarrow> ('n, 'e) Codec \<Rightarrow> ('d, 'n) pLog \<Rightarrow> ('d, 'n) pLog \<times> bool" where
  "finishRotate_start dst cdc pl =
     (let pl1 = pl\<lparr>size_pl := 0, sizeReplay := 0\<rparr>
      in case dStartRotate dst (priDest pl1) of
           (d', err) \<Rightarrow>
             let pl2 = pl1\<lparr>priDest := d'\<rparr>;
                 pl3 = (case secDest pl2 of
                          None \<Rightarrow> pl2
                        | Some s \<Rightarrow> pl2\<lparr>secDest := Some (fst (dStartRotate dst s))\<rparr>)
             in if err \<noteq> None then (pl3\<lparr>errState := err\<rparr>, False)
                else (pl3\<lparr>encoder := Some (NewEncoder cdc)\<rparr>, True))"

definition finishRotate_end :: "'d LogDestination \<Rightarrow> ('d, 'n) pLog \<Rightarrow> ('d, 'n) pLog" where
  "finishRotate_end dst pl =
     (case dEndRotate dst (priDest pl) of
        (d', err) \<Rightarrow>
          let pl1 = pl\<lparr>priDest := d'\<rparr>;
              pl2 = (case secDest pl1 of
                       None \<Rightarrow> pl1
                     | Some s \<Rightarrow> pl1\<lparr>secDest := Some (fst (dEndRotate dst s))\<rparr>);
              pl3 = pl2\<lparr>rotating := False\<rparr>
          in if err \<noteq> None then pl3\<lparr>errState := err\<rparr> else pl3)"

definition finishRotate ::
  "'d LogDestination \<Rightarrow> ('n, 'e) Codec \<Rightarrow> ('d, 'n) pLog \<Rightarrow> 'e list \<Rightarrow> ('d, 'n) pLog" where
  "finishRotate dst cdc pl evs =
     (case finishRotate_start dst cdc pl of
        (pl1, False) \<Rightarrow> pl1
      | (pl1, True) \<Rightarrow> finishRotate_end dst (outputs dst cdc pl1 evs))"

text \<open>
  \<^verbatim>\<open>replay\<close>. A replay source is given by what its decoder returns, call after call,
  before \<^verbatim>\<open>io.EOF\<close>: an event, or an error of the decoding. \<open>i\<close> is the index of the
  source in the list of \<^verbatim>\<open>ReplayReaders()\<close> and \<open>count\<close> the number of events decoded
  from it so far. Closing a source once it has reached \<^verbatim>\<open>io.EOF\<close> is left out.
\<close>

fun replay_source ::
  "('c, 'e) LogClient \<Rightarrow> nat \<Rightarrow> nat \<Rightarrow> 'c \<Rightarrow> (error + 'e) list \<Rightarrow> 'c \<times> error option" where
  "replay_source cl i count c [] = (c, None)"
| "replay_source cl i count c (Inl err # rest) = (c, Some (ReplayDecodeFailed (i + 1) count err))"
| "replay_source cl i count c (Inr ev # rest) =
     (case Replay cl c ev of
        (c', Some err) \<Rightarrow> (c', Some (ReplayFailed (count + 1) err))
      | (c', None) \<Rightarrow> replay_source cl i (count + 1) c' rest)"

fun replay_from ::
  "('c, 'e) LogClient \<Rightarrow> nat \<Rightarrow> 'c \<Rightarrow> (error + 'e) list list \<Rightarrow> 'c \<times> error option" where
  "replay_from cl i c [] = (c, None)"
| "replay_from cl i c (rr # rrs) =
     (case replay_source cl i 0 c rr of
        (c', Some err) \<Rightarrow> (c', Some err)
      | (c', None) \<Rightarrow> replay_from cl (i + 1) c' rrs)"

definition replay ::
  "('c, 'e) LogClient \<Rightarrow> 'c \<Rightarrow> (error + 'e) list list \<Rightarrow> 'c \<times> error option" where
  "replay cl c rrs = replay_from cl 0 c rrs"

text \<open>
  \<^verbatim>\<open>NewLog\<close>, with the replay sources of the primary destination as \<open>rrs\<close>. \<open>Inl\<close> is
  the return of a nil coordinator with the error.
\<close>

definition NewLog ::
  "'d LogDestination \<Rightarrow> ('n, 'e) Codec \<Rightarrow> ('c, 'e) LogClient \<Rightarrow> 'd \<Rightarrow> 'c \<Rightarrow>
     (error + 'e) list list \<Rightarrow> 'c \<times> (error + ('d, 'n) pLog)" where
  "NewLog dst cdc cl pri c rrs =
     (let pl = \<lparr>size_pl = 0, sizeLimit = 1024 * 1024, sizeReplay = 0, objects = 0,
                encoder = Some (NewEncoder cdc), priDest = pri, secDest = None,
                rotating = False, errState = None, pLogError = False\<rparr>
      in case replay cl c rrs of
           (c', Some err) \<Rightarrow> (c', Inl err)
         | (c', None) \<Rightarrow>
             let pl1 = outputs dst cdc (pl\<lparr>rotating := True\<rparr>) (PersistAll cl c');
                 pl2 = pl1\<lparr>rotating := False\<rparr>
             in case dEndRotate dst (priDest pl2) of
                  (d', err) \<Rightarrow>
                    let pl3 = pl2\<lparr>priDest := d'\<rparr>;
                        pl4 = (case secDest pl3 of
                                 None \<Rightarrow> pl3
                               | Some s \<Rightarrow> pl3\<lparr>secDest := Some (fst (dEndRotate dst s))\<rparr>)
                    in case err of Some e \<Rightarrow> (c', Inl e) | None \<Rightarrow> (c', Inr pl4))"

section \<open>Concrete inputs\<close>

text \<open>
  A directory in which the undecorated stem and the stem with \<^verbatim>\<open>a\<close> are taken, and one in
  which every stem of the second \<^verbatim>\<open>20150101-000000\<close> is taken.
\<close>

definition fs_two_taken :: fsys where
  "fs_two_taken =
     \<lparr>dirs = [''/tmp/t''],
      files = [(''/tmp/t/nf-20150101-000000-curr.plog'', File ''x'' True),
               (''/tmp/t/nf-20150101-000000a-new.plog'', File ''y'' True)]\<rparr>"

definition fs_all_taken :: fsys where
  "fs_all_taken =
     \<lparr>dirs = [''/tmp/t''],
      files = map (\<lambda>i. (''/tmp/t/nf-20150101-000000'' @ [i] @ ''-old.plog'', File [] True))
                ''abcdefghijklmnopqrstuvwxyz''\<rparr>"

text \<open>
  Directories for the basepath \<^verbatim>\<open>/tmp/t/nf\<close>: a virgin one; one with a single \<^verbatim>\<open>-curr\<close>
  segment; one left by an interrupted snapshot (a \<^verbatim>\<open>-curr\<close> segment followed by a
  \<^verbatim>\<open>-new\<close> segment); one with a lone \<^verbatim>\<open>-new\<close> segment.
\<close>

definition fs_virgin :: fsys where
  "fs_virgin = \<lparr>dirs = [''/tmp/t''], files = []\<rparr>"

definition fs_one :: fsys where
  "fs_one =
     \<lparr>dirs = [''/tmp/t''],
      files = [(''/tmp/t/nf-20150101-000000-curr.plog'', File ''Hello World'' True)]\<rparr>"

definition fs_interrupted :: fsys where
  "fs_interrupted =
     \<lparr>dirs = [''/tmp/t''],
      files = [(''/tmp/t/nf-20150101-000005-new.plog'', File ''Hello Again'' True),
               (''/tmp/t/nf-20150101-000000-curr.plog'', File ''Hello World'' True)]\<rparr>"

definition fs_new_only :: fsys where
  "fs_new_only =
     \<lparr>dirs = [''/tmp/t''],
      files = [(''/tmp/t/nf-20150101-000005-new.plog'', File ''Hello Again'' True)]\<rparr>"

text \<open>The state right after opening \<open>fs_interrupted\<close> at 00:00:09.\<close>

definition fs_reopened :: fsys where
  "fs_reopened =
     \<lparr>dirs = [''/tmp/t''],
      files = [(''/tmp/t/nf-20150101-000005-new.plog'', File ''Hello Again'' True),
               (''/tmp/t/nf-20150101-000000-curr.plog'', File ''Hello World'' True),
               (''/tmp/t/nf-20150101-000009-new.plog'', File [] True)]\<rparr>"

definition fd_reopened :: fileDest where
  "fd_reopened =
     \<lparr>basepath = ''/tmp/t/nf'',
      replayReaders = [OsFile ''/tmp/t/nf-20150101-000000-curr.plog'',
                       OsFile ''/tmp/t/nf-20150101-000005-new.plog''],
      outputFile = Some (OsFile ''/tmp/t/nf-20150101-000009-new.plog''),
      outputFilename = ''/tmp/t/nf-20150101-000009-new.plog'',
      oldFilename = ''/tmp/t/nf-20150101-000005-new.plog'',
      snapOK = False\<rparr>"

text \<open>The state right after opening \<open>fs_one\<close> at 00:00:09.\<close>

definition fs_one_opened :: fsys where
  "fs_one_opened =
     \<lparr>dirs = [''/tmp/t''],
      files = [(''/tmp/t/nf-20150101-000000-curr.plog'', File ''Hello World'' True),
               (''/tmp/t/nf-20150101-000009-new.plog'', File [] True)]\<rparr>"

definition fd_one_opened :: fileDest where
  "fd_one_opened =
     \<lparr>basepath = ''/tmp/t/nf'',
      replayReaders = [OsFile ''/tmp/t/nf-20150101-000000-curr.plog''],
      outputFile = Some (OsFile ''/tmp/t/nf-20150101-000009-new.plog''),
      outputFilename = ''/tmp/t/nf-20150101-000009-new.plog'',
      oldFilename = ''/tmp/t/nf-20150101-000000-curr.plog'',
      snapOK = False\<rparr>"

text \<open>The state right after opening \<open>fs_virgin\<close> at 00:00:09.\<close>

definition fs_created :: fsys where
  "fs_created =
     \<lparr>dirs = [''/tmp/t''],
      files = [(''/tmp/t/nf-20150101-000009-curr.plog'', File [] True)]\<rparr>"

definition fd_created :: fileDest where
  "fd_created =
     \<lparr>basepath = ''/tmp/t/nf'', replayReaders = [],
      outputFile = Some (OsFile ''/tmp/t/nf-20150101-000009-curr.plog''),
      outputFilename = ''/tmp/t/nf-20150101-000009-curr.plog'',
      oldFilename = [], snapOK = False\<rparr>"

text \<open>Byte-string readers: an empty one, two with data, and one whose disk fails.\<close>

definition r_empty :: bufReader where
  "r_empty = \<lparr>pending = [], broken = None, isClosed = False\<rparr>"

definition r_hello :: bufReader where
  "r_hello = \<lparr>pending = ''Hello World'', broken = None, isClosed = False\<rparr>"

definition r_again :: bufReader where
  "r_again = \<lparr>pending = ''Hello Again'', broken = None, isClosed = False\<rparr>"

definition r_broken :: bufReader where
  "r_broken = \<lparr>pending = ''Hello'', broken = Some (Other ''input/output error''), isClosed = False\<rparr>"

text \<open>
  A destination with a quota of bytes per segment (its state is the room left; a rotation
  starts a fresh segment), a codec that writes each event, a byte string, as one chunk,
  and an application that keeps the events replayed to it and refuses the event
  \<^verbatim>\<open>bad\<close>.
\<close>

definition quota_dest :: "nat LogDestination" where
  "quota_dest =
     \<lparr>dWrite = (\<lambda>d p. if length p \<le> d then (d - length p, int (length p), None)
                       else (d, 0, Some (Other ''no space left on device''))),
       dStartRotate = (\<lambda>d. (1000, None)),
       dEndRotate = (\<lambda>d. (d, None))\<rparr>"

definition line_codec :: "(nat, string) Codec" where
  "line_codec = \<lparr>NewEncoder = 0, encode = (\<lambda>n ev. (n + 1, [ev], None))\<rparr>"

definition keeper :: "(string list, string) LogClient" where
  "keeper =
     \<lparr>Replay = (\<lambda>c ev. if ev = ''bad'' then (c, Some (Other ''invalid replay record type''))
                        else (c @ [ev], None)),
       PersistAll = (\<lambda>c. c)\<rparr>"

text \<open>
  A coordinator as \<open>NewLog\<close> returns it on a destination with 20 bytes of room and
  nothing to replay, then with the size limit set to 10 bytes; the same after the event
  \<^verbatim>\<open>Hello World!\<close> has been written (a rotation is now scheduled); and the same after a
  further event for which the destination has no room.
\<close>

definition pl_new :: "(nat, nat) pLog" where
  "pl_new =
     \<lparr>size_pl = 0, sizeLimit = 1024 * 1024, sizeReplay = 0, objects = 0, encoder = Some 0,
      priDest = 20, secDest = None, rotating = False, errState = None, pLogError = False\<rparr>"

definition pl_limit :: "(nat, nat) pLog" where
  "pl_limit = SetSizeLimit pl_new 10"

definition pl_scheduled :: "(nat, nat) pLog" where
  "pl_scheduled = fst (Output quota_dest line_codec pl_limit ''Hello World!'')"

definition pl_failed :: "(nat, nat) pLog" where
  "pl_failed = fst (Output quota_dest line_codec pl_scheduled ''Hello Again'')"

text \<open>A coordinator that was not built by \<open>NewLog\<close>: every field has Go's zero value.\<close>

definition pl_zero :: "(nat, nat) pLog" where
  "pl_zero =
     \<lparr>size_pl = 0, sizeLimit = 0, sizeReplay = 0, objects = 0, encoder = None,
      priDest = 20, secDest = None, rotating = False, errState = None, pLogError = False\<rparr>"

section \<open>Opening a new output segment\<close>

lemma os_OpenFile_not_ErrExist: "snd (os_OpenFile fs p) \<noteq> Inl ErrExist"
  by (simp add: os_OpenFile_def)

lemma Glob_taken: "(case Glob fs n [] of Inr m \<Rightarrow> m | Inl _ \<Rightarrow> []) \<noteq> [] \<longleftrightarrow> taken fs n"
  by (auto simp: Glob_def taken_def filter_empty_conv simp flip: set_empty)

text \<open>The loop stops at the first candidate whose stem is free and creates that name.\<close>

lemma createNewFile_loop_find:
  "createNewFile_loop fs name ext cs =
     (case find (\<lambda>n. \<not> taken fs n)
             (map (\<lambda>i. if i \<noteq> CHR 0x60 then name @ [i] else name) cs) of
        None \<Rightarrow> (fs, Inl TooManyLogFiles)
      | Some n \<Rightarrow> (case os_OpenFile fs (n @ ext) of
                    (fs', Inr f) \<Rightarrow> (fs', Inr (f, n @ ext))
                  | (fs', Inl err) \<Rightarrow> (fs', Inl err)))"
proof (induction cs)
  case Nil
  show ?case by simp
next
  case (Cons i rest)
  let ?n = "if i \<noteq> CHR 0x60 then name @ [i] else name"
  show ?case
  proof (cases "taken fs ?n")
    case True
    then have "(case Glob fs ?n [] of Inr m \<Rightarrow> m | Inl _ \<Rightarrow> []) \<noteq> []"
      using Glob_taken by blast
    with True Cons.IH show ?thesis by (simp add: Let_def)
  next
    case False
    then have g: "(case Glob fs ?n [] of Inr m \<Rightarrow> m | Inl _ \<Rightarrow> []) = []"
      using Glob_taken by blast
    obtain fs' r where o: "os_OpenFile fs (?n @ ext) = (fs', r)"
      by (cases "os_OpenFile fs (?n @ ext)")
    have "r \<noteq> Inl ErrExist"
      using os_OpenFile_not_ErrExist[of fs "?n @ ext"] o by simp
    with False g o show ?thesis by (cases r) (auto simp: Let_def)
  qed
qed

lemma stems_map:
  "stems name = map (\<lambda>i. if i \<noteq> CHR 0x60 then name @ [i] else name)
                  (CHR 0x60 # ''abcdefghijklmnopqrstuvwxyz'')"
  by (simp add: stems_def)

lemma free_not_existing:
  assumes "\<not> taken fs n" "CHR ''/'' \<notin> set ext"
  shows "n @ ext \<notin> set (map fst (files fs))"
proof
  assume "n @ ext \<in> set (map fst (files fs))"
  moreover have "glob_match n [] (n @ ext)"
    using assms(2) by (simp add: glob_match_def HasPrefix_def HasSuffix_def)
  ultimately show False using assms(1) unfolding taken_def by blast
qed

lemma find_first:
  "xs = pre @ n # post \<Longrightarrow> \<forall>k \<in> set pre. \<not> P k \<Longrightarrow> P n \<Longrightarrow> find P xs = Some n"
  by (induction pre arbitrary: xs) auto

text \<open>
  Claim C8. When the undecorated stem and every stem with one letter from \<^verbatim>\<open>a\<close> to
  \<^verbatim>\<open>z\<close> are taken by existing files, \<open>createNewFile\<close> fails with the error "Too many
  log files in the same second" and the file system is unchanged. Otherwise, with \<open>n\<close>
  the first free stem in that order, no file named \<open>n @ ext\<close> exists, and the outcome is
  that of the exclusive create of \<open>n @ ext\<close>: in an existing directory the empty file
  \<open>n @ ext\<close> is added and returned with its name, and no other name is tried; where the
  operating system refuses the create, its error is returned (never the too-many error).
  The extension holds no path separator, as \<open>newExt\<close> and \<open>currExt\<close> do not.
\<close>

theorem createNewFile_too_many_or_first_free:
  assumes "CHR ''/'' \<notin> set ext"
  shows "((\<forall>n \<in> set (stems name). taken fs n) \<longrightarrow>
            createNewFile fs name ext = (fs, Inl TooManyLogFiles)) \<and>
         (\<forall>pre n post.
            stems name = pre @ n # post \<and> (\<forall>k \<in> set pre. taken fs k) \<and> \<not> taken fs n \<longrightarrow>
            n @ ext \<notin> set (map fst (files fs)) \<and>
            createNewFile fs name ext =
              (if dirname (n @ ext) \<in> set (dirs fs)
               then (fs\<lparr>files := files fs @ [(n @ ext, File [] True)]\<rparr>,
                     Inr (OsFile (n @ ext), n @ ext))
               else (fs, Inl (PathError ''open'' (n @ ext) ''no such file or directory''))))"
proof (intro conjI impI allI)
  assume "\<forall>n \<in> set (stems name). taken fs n"
  then have "find (\<lambda>n. \<not> taken fs n) (stems name) = None"
    by (simp add: find_None_iff)
  then show "createNewFile fs name ext = (fs, Inl TooManyLogFiles)"
    unfolding createNewFile_def createNewFile_loop_find stems_map[symmetric] by simp
next
  fix pre n post
  assume "stems name = pre @ n # post \<and> (\<forall>k \<in> set pre. taken fs k) \<and> \<not> taken fs n"
  then show "n @ ext \<notin> set (map fst (files fs))"
    using free_not_existing assms by blast
next
  fix pre n post
  assume h: "stems name = pre @ n # post \<and> (\<forall>k \<in> set pre. taken fs k) \<and> \<not> taken fs n"
  then have f: "find (\<lambda>n. \<not> taken fs n) (stems name) = Some n"
    by (intro find_first[where pre = pre and post = post]) auto
  have ne: "n @ ext \<notin> set (map fst (files fs))"
    using h free_not_existing assms by blast
  show "createNewFile fs name ext =
              (if dirname (n @ ext) \<in> set (dirs fs)
               then (fs\<lparr>files := files fs @ [(n @ ext, File [] True)]\<rparr>,
                     Inr (OsFile (n @ ext), n @ ext))
               else (fs, Inl (PathError ''open'' (n @ ext) ''no such file or directory'')))"
    unfolding createNewFile_def createNewFile_loop_find stems_map[symmetric] f
    using ne by (simp add: os_OpenFile_def)
qed

lemma two_taken_plain: "taken fs_two_taken ''/tmp/t/nf-20150101-000000''"
  by (simp add: taken_def fs_two_taken_def glob_match_def HasPrefix_def HasSuffix_def)

lemma two_taken_a: "taken fs_two_taken ''/tmp/t/nf-20150101-000000a''"
  by (simp add: taken_def fs_two_taken_def glob_match_def HasPrefix_def HasSuffix_def)

lemma two_taken_b: "\<not> taken fs_two_taken ''/tmp/t/nf-20150101-000000b''"
  by (simp add: taken_def fs_two_taken_def glob_match_def HasPrefix_def HasSuffix_def)

lemma all_taken: "\<forall>n \<in> set (stems ''/tmp/t/nf-20150101-000000''). taken fs_all_taken n"
  by code_simp

theorem createNewFile_too_many_or_first_free_witness:
  "CHR ''/'' \<notin> set newExt \<and>
   createNewFile fs_all_taken ''/tmp/t/nf-20150101-000000'' newExt =
     (fs_all_taken, Inl TooManyLogFiles) \<and>
   createNewFile fs_two_taken ''/tmp/t/nf-20150101-000000'' newExt =
     (fs_two_taken\<lparr>files := files fs_two_taken @
                      [(''/tmp/t/nf-20150101-000000b-new.plog'', File [] True)]\<rparr>,
      Inr (OsFile ''/tmp/t/nf-20150101-000000b-new.plog'',
           ''/tmp/t/nf-20150101-000000b-new.plog''))"
proof -
  have s: "CHR ''/'' \<notin> set newExt" by (simp add: newExt_def)
  have st: "stems ''/tmp/t/nf-20150101-000000'' =
     [''/tmp/t/nf-20150101-000000'', ''/tmp/t/nf-20150101-000000a''] @
     ''/tmp/t/nf-20150101-000000b'' #
       map (\<lambda>i. ''/tmp/t/nf-20150101-000000'' @ [i]) ''cdefghijklmnopqrstuvwxyz''"
    by (simp add: stems_def)
  have tk: "\<forall>k \<in> set [''/tmp/t/nf-20150101-000000'', ''/tmp/t/nf-20150101-000000a''].
              taken fs_two_taken k"
    using two_taken_plain two_taken_a by simp
  have d: "dirname (''/tmp/t/nf-20150101-000000b'' @ newExt) \<in> set (dirs fs_two_taken)"
    by (simp add: dirname_def newExt_def fs_two_taken_def)
  note full = createNewFile_too_many_or_first_free[OF s, of "''/tmp/t/nf-20150101-000000''"
      fs_all_taken, THEN conjunct1, THEN mp, OF all_taken]
  note T = createNewFile_too_many_or_first_free[OF s, of "''/tmp/t/nf-20150101-000000''"
      fs_two_taken, THEN conjunct2, rule_format, OF conjI[OF st conjI[OF tk two_taken_b]],
      THEN conjunct2]
  from T d
  have "createNewFile fs_two_taken ''/tmp/t/nf-20150101-000000'' newExt =
     (fs_two_taken\<lparr>files := files fs_two_taken @
                      [(''/tmp/t/nf-20150101-000000b'' @ newExt, File [] True)]\<rparr>,
      Inr (OsFile (''/tmp/t/nf-20150101-000000b'' @ newExt),
           ''/tmp/t/nf-20150101-000000b'' @ newExt))"
    by simp
  then show ?thesis using s full by (simp add: newExt_def)
qed

section \<open>Suffixes and renaming\<close>

lemma HasSuffix_append: "HasSuffix (x @ suf) suf"
  by (simp add: HasSuffix_def)

lemma HasSuffix_rev_nth:
  assumes "HasSuffix s suf" "n < length suf"
  shows "rev s ! n = rev suf ! n"
proof -
  from assms(1) have "s = take (length s - length suf) s @ suf"
    unfolding HasSuffix_def by (metis append_take_drop_id)
  then have "rev s = rev suf @ rev (take (length s - length suf) s)"
    by (metis rev_append)
  then show ?thesis using assms(2) by (simp add: nth_append)
qed

lemma ext_disjoint:
  "HasSuffix s newExt \<Longrightarrow> \<not> HasSuffix s currExt"
  "HasSuffix s newExt \<Longrightarrow> \<not> HasSuffix s oldExt"
  "HasSuffix s currExt \<Longrightarrow> \<not> HasSuffix s oldExt"
  using HasSuffix_rev_nth[of s newExt 5] HasSuffix_rev_nth[of s currExt 5]
    HasSuffix_rev_nth[of s oldExt 5]
  by (auto simp: newExt_def currExt_def oldExt_def)

lemma map_of_rename:
  assumes "map_of fl old = Some f" "old \<noteq> new"
  shows "map_of (map (\<lambda>(p, g). if p = old then (new, g) else (p, g))
                   (filter (\<lambda>(p, g). p \<noteq> new) fl)) x =
         (if x = new then Some f else if x = old then None else map_of fl x)"
  using assms
proof (induction fl)
  case Nil
  then show ?case by simp
next
  case (Cons a fl)
  obtain p g where a: "a = (p, g)" by (cases a)
  show ?case
  proof (cases "p = old")
    case True
    have "map_of (map (\<lambda>(p, g). if p = old then (new, g) else (p, g))
                   (filter (\<lambda>(p, g). p \<noteq> new) fl)) old = None"
      using Cons.prems(2) by (induction fl) (auto split: if_splits)
    moreover have "\<And>y. y \<noteq> old \<Longrightarrow> y \<noteq> new \<Longrightarrow>
       map_of (map (\<lambda>(p, g). if p = old then (new, g) else (p, g))
                   (filter (\<lambda>(p, g). p \<noteq> new) fl)) y = map_of fl y"
      by (induction fl) auto
    ultimately show ?thesis using True a Cons.prems by auto
  next
    case False
    then show ?thesis using a Cons by auto
  qed
qed

lemma os_Rename_ok:
  assumes "map_of (files fs) old = Some f" "old \<noteq> new"
  shows "snd (os_Rename fs old new) = None"
    and "dirs (fst (os_Rename fs old new)) = dirs fs"
    and "map_of (files (fst (os_Rename fs old new))) x =
         (if x = new then Some f else if x = old then None else map_of (files fs) x)"
  using assms map_of_rename[OF assms, of x] by (simp_all add: os_Rename_def)

section \<open>Classification of the segments at open\<close>

lemma startNew_result:
  "startNew fs date fd b = (fs', fd', e) \<Longrightarrow>
     (e = None \<and> replayReaders fd' = replayReaders fd) \<or> (\<exists>c. e = Some (CannotCreate c))"
  by (auto simp: startNew_def Let_def split: prod.splits sum.splits)

lemma os_Open_result:
  "os_Open fs p = Inr f \<Longrightarrow> f = OsFile p"
  by (auto simp: os_Open_def split: option.splits if_splits)

lemma NewFileDest_unfold:
  assumes "\<not> ContainsAny bp basepathMeta"
  shows "NewFileDest fs date bp create =
    (let fd = \<lparr>basepath = bp, replayReaders = [], outputFile = None,
                    outputFilename = [], oldFilename = [], snapOK = False\<rparr>;
         m = enumeration fs bp;
         lm = length m - 1
     in case (if length m > 0 then
                     (if HasSuffix (m ! lm) currExt then
                        (case os_Open fs (m ! lm) of
                           Inl err \<Rightarrow> Inl (ErrorOpening (m ! lm) err)
                         | Inr f0 \<Rightarrow> Inr (fd\<lparr>replayReaders := [f0], oldFilename := m ! lm\<rparr>))
                      else if HasSuffix (m ! lm) newExt \<and> lm > 0 \<and>
                              HasSuffix (m ! (lm - 1)) currExt then
                        (case os_Open fs (m ! (lm - 1)) of
                           Inl err \<Rightarrow> Inl (ErrorOpening (m ! (lm - 1)) err)
                         | Inr f0 \<Rightarrow>
                             (case os_Open fs (m ! lm) of
                                Inl err \<Rightarrow> Inl (ErrorOpening (m ! lm) err)
                              | Inr f1 \<Rightarrow>
                                  Inr (fd\<lparr>replayReaders := [f0, f1], oldFilename := m ! lm\<rparr>)))
                      else Inl (CannotDetermine bp))
                   else if \<not> create then Inl (NoExistingLog bp)
                   else Inr fd) of
               Inl err \<Rightarrow> (fs, Inl err)
             | Inr fd1 \<Rightarrow>
                 (case startNew fs date fd1 (length m > 0) of
                    (fs', fd2, Some err) \<Rightarrow> (fs', Inl err)
                  | (fs', fd2, None) \<Rightarrow> (fs', Inr fd2)))"
  using assms by (simp add: NewFileDest_def enumeration_def Glob_def Let_def)

lemma list_shape:
  obtains "m = []" | x where "m = [x]" | ys y x where "m = ys @ [y, x]"
proof (cases m rule: rev_cases)
  case Nil
  then show ?thesis using that by blast
next
  case (snoc zs x)
  then show ?thesis
    by (cases zs rule: rev_cases) (use that in auto)
qed

lemma nth_last2:
  "(ys @ [y, x]) ! Suc (length ys) = x" "(ys @ [y, x]) ! length ys = y"
  by (simp_all add: nth_append)

lemma NewFileDest_empty:
  assumes "\<not> ContainsAny bp basepathMeta" "enumeration fs bp = []" "\<not> create"
  shows "NewFileDest fs date bp create = (fs, Inl (NoExistingLog bp))"
  using assms(2,3) by (simp add: NewFileDest_unfold[OF assms(1)])

lemma NewFileDest_ambiguous:
  assumes "\<not> ContainsAny bp basepathMeta" "enumeration fs bp \<noteq> []"
    "\<not> HasSuffix (last (enumeration fs bp)) currExt"
    "\<not> (HasSuffix (last (enumeration fs bp)) newExt \<and> 2 \<le> length (enumeration fs bp) \<and>
        HasSuffix (enumeration fs bp ! (length (enumeration fs bp) - 2)) currExt)"
  shows "NewFileDest fs date bp create = (fs, Inl (CannotDetermine bp))"
proof (cases "enumeration fs bp" rule: list_shape)
  case 1
  then show ?thesis using assms(2) by simp
next
  case (2 x)
  then show ?thesis using assms(3)
    by (simp add: NewFileDest_unfold[OF assms(1)])
next
  case (3 ys y x)
  then show ?thesis using assms(3,4)
    by (auto simp: NewFileDest_unfold[OF assms(1)] nth_last2)
qed

lemma NewFileDest_curr:
  assumes "\<not> ContainsAny bp basepathMeta" "enumeration fs bp \<noteq> []"
    "HasSuffix (last (enumeration fs bp)) currExt"
  shows "case NewFileDest fs date bp create of
           (fs', Inr fd) \<Rightarrow> replayReaders fd = [OsFile (last (enumeration fs bp))]
         | (fs', Inl err) \<Rightarrow>
             (\<exists>c. err = ErrorOpening (last (enumeration fs bp)) c \<or> err = CannotCreate c)"
proof -
  let ?m = "enumeration fs bp"
  let ?x = "last ?m"
  have l: "?m ! (length ?m - 1) = ?x" "0 < length ?m"
    using assms(2) by (simp_all add: last_conv_nth)
  have u: "NewFileDest fs date bp create =
     (case os_Open fs ?x of
        Inl err \<Rightarrow> (fs, Inl (ErrorOpening ?x err))
      | Inr f0 \<Rightarrow>
         (case startNew fs date \<lparr>basepath = bp, replayReaders = [f0], outputFile = None,
                    outputFilename = [], oldFilename = ?x, snapOK = False\<rparr> True of
            (fs', fd2, Some err) \<Rightarrow> (fs', Inl err)
          | (fs', fd2, None) \<Rightarrow> (fs', Inr fd2)))"
    unfolding NewFileDest_unfold[OF assms(1)] Let_def l using assms(3) l(2)
    by (simp split: sum.splits)
  show ?thesis
  proof (cases "os_Open fs ?x")
    case (Inl err)
    then show ?thesis unfolding u by auto
  next
    case (Inr f0)
    then have f0: "f0 = OsFile ?x" by (rule os_Open_result)
    let ?fd1 = "\<lparr>basepath = bp, replayReaders = [f0], outputFile = None,
                    outputFilename = [], oldFilename = ?x, snapOK = False\<rparr>"
    obtain fs' fd2 e where s: "startNew fs date ?fd1 True = (fs', fd2, e)"
      by (cases "startNew fs date ?fd1 True")
    from startNew_result[OF s] show ?thesis
      unfolding u using Inr s f0 by auto
  qed
qed

lemma NewFileDest_new_curr:
  assumes "\<not> ContainsAny bp basepathMeta"
    "HasSuffix (last (enumeration fs bp)) newExt" "2 \<le> length (enumeration fs bp)"
    "HasSuffix (enumeration fs bp ! (length (enumeration fs bp) - 2)) currExt"
  shows "case NewFileDest fs date bp create of
           (fs', Inr fd) \<Rightarrow>
             replayReaders fd = [OsFile (enumeration fs bp ! (length (enumeration fs bp) - 2)),
                                 OsFile (last (enumeration fs bp))]
         | (fs', Inl err) \<Rightarrow>
             (\<exists>c. err = ErrorOpening (enumeration fs bp ! (length (enumeration fs bp) - 2)) c \<or>
                  err = ErrorOpening (last (enumeration fs bp)) c \<or> err = CannotCreate c)"
proof -
  let ?m = "enumeration fs bp"
  let ?x = "last ?m" and ?y = "?m ! (length ?m - 2)"
  have ne: "?m \<noteq> []" using assms(3) by auto
  have l: "?m ! (length ?m - 1) = ?x" "0 < length ?m" "0 < length ?m - 1"
    "length ?m - 1 - 1 = length ?m - 2"
    using assms(3) ne by (simp_all add: last_conv_nth)
  have nc: "\<not> HasSuffix ?x currExt"
    using assms(2) ext_disjoint(1) by blast
  have u: "NewFileDest fs date bp create =
     (case os_Open fs ?y of
        Inl err \<Rightarrow> (fs, Inl (ErrorOpening ?y err))
      | Inr f0 \<Rightarrow>
         (case os_Open fs ?x of
            Inl err \<Rightarrow> (fs, Inl (ErrorOpening ?x err))
          | Inr f1 \<Rightarrow>
         (case startNew fs date \<lparr>basepath = bp, replayReaders = [f0, f1], outputFile = None,
                    outputFilename = [], oldFilename = ?x, snapOK = False\<rparr> True of
            (fs', fd2, Some err) \<Rightarrow> (fs', Inl err)
          | (fs', fd2, None) \<Rightarrow> (fs', Inr fd2))))"
    unfolding NewFileDest_unfold[OF assms(1)] Let_def l using assms(2,4) nc l(2,3)
    by (simp split: sum.splits)
  show ?thesis
  proof (cases "os_Open fs ?y")
    case (Inl err)
    then show ?thesis unfolding u by auto
  next
    case f0: (Inr f0)
    then have f0e: "f0 = OsFile ?y" by (rule os_Open_result)
    show ?thesis
    proof (cases "os_Open fs ?x")
      case (Inl err)
      then show ?thesis unfolding u using f0 by auto
    next
      case f1: (Inr f1)
      then have f1e: "f1 = OsFile ?x" by (rule os_Open_result)
      let ?fd1 = "\<lparr>basepath = bp, replayReaders = [f0, f1], outputFile = None,
                    outputFilename = [], oldFilename = ?x, snapOK = False\<rparr>"
      obtain fs' fd2 e where s: "startNew fs date ?fd1 True = (fs', fd2, e)"
        by (cases "startNew fs date ?fd1 True")
      from startNew_result[OF s] show ?thesis
        unfolding u using f0 f1 s f0e f1e by auto
    qed
  qed
qed

lemma bp_ok: "\<not> ContainsAny ''/tmp/t/nf'' basepathMeta"
  by code_simp

lemma enum_virgin: "enumeration fs_virgin ''/tmp/t/nf'' = []"
  by code_simp

lemma enum_one:
  "enumeration fs_one ''/tmp/t/nf'' = [''/tmp/t/nf-20150101-000000-curr.plog'']"
  by code_simp

lemma enum_interrupted:
  "enumeration fs_interrupted ''/tmp/t/nf'' =
     [''/tmp/t/nf-20150101-000000-curr.plog'', ''/tmp/t/nf-20150101-000005-new.plog'']"
  by code_simp

lemma enum_new_only:
  "enumeration fs_new_only ''/tmp/t/nf'' = [''/tmp/t/nf-20150101-000005-new.plog'']"
  by code_simp

lemma open_interrupted:
  "NewFileDest fs_interrupted ''-20150101-000009'' ''/tmp/t/nf'' False =
     (fs_reopened, Inr fd_reopened)"
  by code_simp

lemma open_one:
  "NewFileDest fs_one ''-20150101-000009'' ''/tmp/t/nf'' False =
     (fs_one_opened, Inr fd_one_opened)"
  by code_simp

lemma open_virgin:
  "NewFileDest fs_virgin ''-20150101-000009'' ''/tmp/t/nf'' True = (fs_created, Inr fd_created)"
  by code_simp

text \<open>
  Claim C2. For a basepath free of the refused characters, with \<open>m\<close> the sorted
  enumeration of its segments: when \<open>m\<close> is empty and \<open>create\<close> is false, \<open>NewFileDest\<close>
  fails with "No existing log file found" and leaves the file system as it was; when the
  last entry ends in \<^verbatim>\<open>-curr.plog\<close>, a destination that is returned replays one reader,
  over that file; when the last entry ends in \<^verbatim>\<open>-new.plog\<close> and the entry before it in
  \<^verbatim>\<open>-curr.plog\<close>, a destination that is returned replays those two files, the older
  first; in both shapes the only other outcome is the failure to open one of these files
  or to create the new output segment. Every other non-empty shape fails with "Cannot
  determine current (&new) logs", and the file system is as it was.
\<close>

theorem NewFileDest_classifies:
  assumes "\<not> ContainsAny bp basepathMeta"
  shows
   "(enumeration fs bp = [] \<and> \<not> create \<longrightarrow>
       NewFileDest fs date bp create = (fs, Inl (NoExistingLog bp))) \<and>
    (enumeration fs bp \<noteq> [] \<and> HasSuffix (last (enumeration fs bp)) currExt \<longrightarrow>
       (case NewFileDest fs date bp create of
          (fs', Inr fd) \<Rightarrow> replayReaders fd = [OsFile (last (enumeration fs bp))]
        | (fs', Inl err) \<Rightarrow>
            (\<exists>c. err = ErrorOpening (last (enumeration fs bp)) c \<or> err = CannotCreate c))) \<and>
    (HasSuffix (last (enumeration fs bp)) newExt \<and> 2 \<le> length (enumeration fs bp) \<and>
     HasSuffix (enumeration fs bp ! (length (enumeration fs bp) - 2)) currExt \<longrightarrow>
       (case NewFileDest fs date bp create of
          (fs', Inr fd) \<Rightarrow>
            replayReaders fd = [OsFile (enumeration fs bp ! (length (enumeration fs bp) - 2)),
                                OsFile (last (enumeration fs bp))]
        | (fs', Inl err) \<Rightarrow>
            (\<exists>c. err = ErrorOpening (enumeration fs bp ! (length (enumeration fs bp) - 2)) c \<or>
                 err = ErrorOpening (last (enumeration fs bp)) c \<or> err = CannotCreate c))) \<and>
    (enumeration fs bp \<noteq> [] \<and> \<not> HasSuffix (last (enumeration fs bp)) currExt \<and>
     \<not> (HasSuffix (last (enumeration fs bp)) newExt \<and> 2 \<le> length (enumeration fs bp) \<and>
        HasSuffix (enumeration fs bp ! (length (enumeration fs bp) - 2)) currExt) \<longrightarrow>
       NewFileDest fs date bp create = (fs, Inl (CannotDetermine bp)))"
  apply (intro conjI impI)
     apply (elim conjE, erule (1) NewFileDest_empty[OF assms])
    apply (elim conjE, erule (1) NewFileDest_curr[OF assms])
   apply (elim conjE, erule (2) NewFileDest_new_curr[OF assms])
  apply (elim conjE, erule (2) NewFileDest_ambiguous[OF assms])
  done

theorem NewFileDest_classifies_witness:
  "\<not> ContainsAny ''/tmp/t/nf'' basepathMeta \<and>
   enumeration fs_virgin ''/tmp/t/nf'' = [] \<and>
   NewFileDest fs_virgin ''-20150101-000009'' ''/tmp/t/nf'' False =
     (fs_virgin, Inl (NoExistingLog ''/tmp/t/nf'')) \<and>
   enumeration fs_new_only ''/tmp/t/nf'' = [''/tmp/t/nf-20150101-000005-new.plog''] \<and>
   NewFileDest fs_new_only ''-20150101-000009'' ''/tmp/t/nf'' False =
     (fs_new_only, Inl (CannotDetermine ''/tmp/t/nf'')) \<and>
   enumeration fs_one ''/tmp/t/nf'' = [''/tmp/t/nf-20150101-000000-curr.plog''] \<and>
   NewFileDest fs_one ''-20150101-000009'' ''/tmp/t/nf'' False =
     (fs_one_opened, Inr fd_one_opened) \<and>
   replayReaders fd_one_opened = [OsFile ''/tmp/t/nf-20150101-000000-curr.plog''] \<and>
   enumeration fs_interrupted ''/tmp/t/nf'' =
     [''/tmp/t/nf-20150101-000000-curr.plog'', ''/tmp/t/nf-20150101-000005-new.plog''] \<and>
   NewFileDest fs_interrupted ''-20150101-000009'' ''/tmp/t/nf'' False =
     (fs_reopened, Inr fd_reopened) \<and>
   replayReaders fd_reopened =
     [OsFile ''/tmp/t/nf-20150101-000000-curr.plog'',
      OsFile ''/tmp/t/nf-20150101-000005-new.plog'']"
proof -
  note T = NewFileDest_classifies[OF bp_ok, of _ False "''-20150101-000009''"]
  have a: "NewFileDest fs_virgin ''-20150101-000009'' ''/tmp/t/nf'' False =
     (fs_virgin, Inl (NoExistingLog ''/tmp/t/nf''))"
    using T[of fs_virgin, THEN conjunct1] enum_virgin by simp
  have s4: "\<not> HasSuffix ''/tmp/t/nf-20150101-000005-new.plog'' currExt"
    by code_simp
  have b: "NewFileDest fs_new_only ''-20150101-000009'' ''/tmp/t/nf'' False =
     (fs_new_only, Inl (CannotDetermine ''/tmp/t/nf''))"
    using T[of fs_new_only, THEN conjunct2, THEN conjunct2, THEN conjunct2] s4
    by (simp add: enum_new_only)
  have s3: "HasSuffix ''/tmp/t/nf-20150101-000005-new.plog'' newExt"
    "HasSuffix ''/tmp/t/nf-20150101-000000-curr.plog'' currExt"
    by code_simp+
  have c: "replayReaders fd_reopened =
     [OsFile ''/tmp/t/nf-20150101-000000-curr.plog'',
      OsFile ''/tmp/t/nf-20150101-000005-new.plog'']"
    using T[of fs_interrupted, THEN conjunct2, THEN conjunct2, THEN conjunct1] s3
    by (simp add: enum_interrupted open_interrupted)
  have d: "replayReaders fd_one_opened = [OsFile ''/tmp/t/nf-20150101-000000-curr.plog'']"
    using T[of fs_one, THEN conjunct2, THEN conjunct1] s3(2)
    by (simp add: enum_one open_one)
  show ?thesis
    using bp_ok enum_virgin a enum_new_only b enum_one open_one d enum_interrupted
      open_interrupted c
    by blast
qed

section \<open>The snapshot flag\<close>

lemma startNew_snapOK:
  "startNew fs date fd b = (fs', fd', e) \<Longrightarrow>
     (e = None \<longrightarrow> \<not> snapOK fd') \<and> (e \<noteq> None \<longrightarrow> snapOK fd' = snapOK fd)"
  by (auto simp: startNew_def Let_def split: prod.splits sum.splits)

lemma StartRotate_snapOK:
  "StartRotate fs date fd = (fs', fd', e) \<Longrightarrow>
     (e = None \<longrightarrow> \<not> snapOK fd') \<and> (e \<noteq> None \<longrightarrow> snapOK fd' = snapOK fd)"
  using startNew_snapOK[of fs date _ True fs' fd' e]
  by (auto simp: StartRotate_def split: if_splits)

lemma EndRotate_snapOK:
  "EndRotate fs fd = (fs', fd', e) \<Longrightarrow>
     (e = None \<longrightarrow> snapOK fd') \<and> (e \<noteq> None \<longrightarrow> snapOK fd' = snapOK fd)"
  by (auto simp: EndRotate_def Let_def split: if_splits prod.splits option.splits sum.splits)

lemma NewFileDest_snapOK:
  "NewFileDest fs date bp create = (fs', Inr fd) \<Longrightarrow> \<not> snapOK fd"
  by (auto simp: NewFileDest_def Let_def dest: startNew_snapOK split: if_splits prod.splits sum.splits option.splits)

lemma run_calls_snapOK:
  "snapOK fd = (lastOK = Some CallEndRotate) \<Longrightarrow>
   run_calls fs fd lastOK cs = (fs', fd', lastOK') \<Longrightarrow>
   snapOK fd' = (lastOK' = Some CallEndRotate)"
proof (induction cs arbitrary: fs fd lastOK)
  case Nil
  then show ?case by simp
next
  case (Cons c cs)
  obtain fs1 fd1 e where d: "do_call fs fd c = (fs1, fd1, e)"
    by (cases "do_call fs fd c")
  show ?case
  proof (cases e)
    case None
    have "snapOK fd1 = (Some c = Some CallEndRotate)"
    proof (cases c)
      case (CallStartRotate date)
      with d None show ?thesis using StartRotate_snapOK[of fs date fd fs1 fd1 e] by simp
    next
      case CallEndRotate
      with d None show ?thesis using EndRotate_snapOK[of fs fd fs1 fd1 e] by simp
    qed
    moreover have "run_calls fs1 fd1 (Some c) cs = (fs', fd', lastOK')"
      using Cons.prems(2) d None by simp
    ultimately show ?thesis using Cons.IH by blast
  next
    case (Some err)
    have "snapOK fd1 = snapOK fd"
    proof (cases c)
      case (CallStartRotate date)
      with d Some show ?thesis using StartRotate_snapOK[of fs date fd fs1 fd1 e] by simp
    next
      case CallEndRotate
      with d Some show ?thesis using EndRotate_snapOK[of fs fd fs1 fd1 e] by simp
    qed
    moreover have "run_calls fs1 fd1 lastOK cs = (fs', fd', lastOK')"
      using Cons.prems(2) d Some by simp
    ultimately show ?thesis using Cons.IH Cons.prems(1) by metis
  qed
qed

text \<open>
  Claim C3. \<open>StartRotate\<close> called while \<open>snapOK\<close> is false fails with "Cannot rotate:
  initial snapshot incomplete" and changes neither the destination nor the file system;
  \<open>EndRotate\<close> called while \<open>snapOK\<close> is true fails with "internal error: StartRotate not
  called"; an \<open>EndRotate\<close> that returns no error leaves \<open>snapOK\<close> true; a \<open>StartRotate\<close>
  that returns no error leaves it false; a destination that has just been opened has it
  false. Hence after any sequence of calls on an opened destination \<open>snapOK\<close> is true
  exactly when the last call that returned no error was an \<open>EndRotate\<close>.
\<close>

theorem snapOK_between_EndRotate_and_StartRotate:
  "(\<not> snapOK fd \<longrightarrow> StartRotate fs date fd = (fs, fd, Some CannotRotate)) \<and>
   (snapOK fd \<longrightarrow> EndRotate fs fd = (fs, fd, Some StartRotateNotCalled)) \<and>
   (\<forall>fs' fd'. EndRotate fs fd = (fs', fd', None) \<longrightarrow> snapOK fd') \<and>
   (\<forall>fs' fd'. StartRotate fs date fd = (fs', fd', None) \<longrightarrow> \<not> snapOK fd') \<and>
   (\<forall>fs0 bp create fs1 fd1 cs fs' fd' lastOK.
      NewFileDest fs0 date bp create = (fs1, Inr fd1) \<longrightarrow>
      \<not> snapOK fd1 \<and>
      (run_calls fs1 fd1 None cs = (fs', fd', lastOK) \<longrightarrow>
       snapOK fd' = (lastOK = Some CallEndRotate)))"
proof (intro conjI allI impI)
  show "\<not> snapOK fd \<Longrightarrow> StartRotate fs date fd = (fs, fd, Some CannotRotate)"
    by (simp add: StartRotate_def)
  show "snapOK fd \<Longrightarrow> EndRotate fs fd = (fs, fd, Some StartRotateNotCalled)"
    by (simp add: EndRotate_def)
  show "\<And>fs' fd'. EndRotate fs fd = (fs', fd', None) \<Longrightarrow> snapOK fd'"
    using EndRotate_snapOK by blast
  show "\<And>fs' fd'. StartRotate fs date fd = (fs', fd', None) \<Longrightarrow> \<not> snapOK fd'"
    using StartRotate_snapOK by blast
next
  fix fs0 bp create fs1 fd1 cs fs' fd' lastOK
  assume n: "NewFileDest fs0 date bp create = (fs1, Inr fd1)"
  then show "\<not> snapOK fd1" by (rule NewFileDest_snapOK)
  assume "run_calls fs1 fd1 None cs = (fs', fd', lastOK)"
  then show "snapOK fd' = (lastOK = Some CallEndRotate)"
    using run_calls_snapOK[of fd1 None fs1 cs fs' fd' lastOK] NewFileDest_snapOK[OF n] by simp
qed

theorem snapOK_between_EndRotate_and_StartRotate_witness:
  "NewFileDest fs_virgin ''-20150101-000009'' ''/tmp/t/nf'' True = (fs_created, Inr fd_created) \<and>
   \<not> snapOK fd_created \<and>
   StartRotate fs_created ''-20150101-000009'' fd_created =
     (fs_created, fd_created, Some CannotRotate) \<and>
   (\<exists>fs' fd'.
      run_calls fs_created fd_created None
        [CallEndRotate, CallEndRotate, CallStartRotate ''-20150101-000010'',
         CallStartRotate ''-20150101-000011'', CallEndRotate] =
        (fs', fd', Some CallEndRotate) \<and>
      snapOK fd')"
proof -
  note T = snapOK_between_EndRotate_and_StartRotate[of fd_created fs_created
      "''-20150101-000009''"]
  obtain fs' fd' lastOK where r:
    "run_calls fs_created fd_created None
        [CallEndRotate, CallEndRotate, CallStartRotate ''-20150101-000010'',
         CallStartRotate ''-20150101-000011'', CallEndRotate] = (fs', fd', lastOK)"
    using prod_cases3 by blast
  have l: "lastOK = Some CallEndRotate"
  proof -
    have "snd (snd (run_calls fs_created fd_created None
        [CallEndRotate, CallEndRotate, CallStartRotate ''-20150101-000010'',
         CallStartRotate ''-20150101-000011'', CallEndRotate])) = Some CallEndRotate"
      by code_simp
    then show ?thesis using r by simp
  qed
  from T have last: "\<forall>fs0 bp create fs1 fd1 cs fs' fd' lastOK.
      NewFileDest fs0 ''-20150101-000009'' bp create = (fs1, Inr fd1) \<longrightarrow>
      \<not> snapOK fd1 \<and>
      (run_calls fs1 fd1 None cs = (fs', fd', lastOK) \<longrightarrow>
       snapOK fd' = (lastOK = Some CallEndRotate))"
    by blast
  from last open_virgin r have n: "\<not> snapOK fd_created" and s: "snapOK fd' = (lastOK = Some CallEndRotate)"
    by blast+
  from T n have st: "StartRotate fs_created ''-20150101-000009'' fd_created =
     (fs_created, fd_created, Some CannotRotate)"
    by blast
  show ?thesis using open_virgin n st r l s by blast
qed

section \<open>The renames at the end of a rotation\<close>

text \<open>
  Claim C7. When \<open>EndRotate\<close> runs on a destination whose snapshot is not yet complete,
  whose recorded previous segment ends in \<^verbatim>\<open>-new.plog\<close> and whose output segment ends
  in \<^verbatim>\<open>-new.plog\<close> (both files exist and are different files), it succeeds; the file
  system it leaves is the one after exactly two renames, the output segment from
  \<^verbatim>\<open>-new\<close> to \<^verbatim>\<open>-curr\<close> and the previous segment from \<^verbatim>\<open>-new\<close> to \<^verbatim>\<open>-old\<close>; and
  every other \<^verbatim>\<open>-curr\<close> segment, in particular the one that precedes the demoted
  \<^verbatim>\<open>-new\<close> segment, is still there under its name with its content.
\<close>

theorem EndRotate_demotes_new_only:
  assumes "\<not> snapOK fd"
    and "HasSuffix (oldFilename fd) newExt"
    and "HasSuffix (outputFilename fd) newExt"
    and "oldFilename fd \<noteq> outputFilename fd"
    and "map_of (files fs) (outputFilename fd) = Some fo"
    and "map_of (files fs) (oldFilename fd) = Some fp"
  shows "\<exists>fs'. EndRotate fs fd =
           (fs', fd\<lparr>outputFilename := TrimSuffix (outputFilename fd) newExt @ currExt,
                    oldFilename := [], snapOK := True\<rparr>, None) \<and>
         fs' = fst (os_Rename
                 (fst (os_Rename fs (outputFilename fd)
                         (TrimSuffix (outputFilename fd) newExt @ currExt)))
                 (oldFilename fd) (TrimSuffix (oldFilename fd) newExt @ oldExt)) \<and>
         map_of (files fs') (TrimSuffix (outputFilename fd) newExt @ currExt) = Some fo \<and>
         map_of (files fs') (TrimSuffix (oldFilename fd) newExt @ oldExt) = Some fp \<and>
         map_of (files fs') (outputFilename fd) = None \<and>
         map_of (files fs') (oldFilename fd) = None \<and>
         (\<forall>c. HasSuffix c currExt \<and> c \<noteq> TrimSuffix (outputFilename fd) newExt @ currExt \<longrightarrow>
              map_of (files fs') c = map_of (files fs) c)"
proof -
  let ?out = "outputFilename fd" and ?old = "oldFilename fd"
  let ?outc = "TrimSuffix ?out newExt @ currExt" and ?oldo = "TrimSuffix ?old newExt @ oldExt"
  have c1: "HasSuffix ?outc currExt" and o1: "HasSuffix ?oldo oldExt"
    by (rule HasSuffix_append)+
  have ne1: "?out \<noteq> ?outc" using assms(3) c1 ext_disjoint(1) by metis
  have ne2: "?old \<noteq> ?oldo" using assms(2) o1 ext_disjoint(2) by metis
  have ne3: "?old \<noteq> ?outc" using assms(2) c1 ext_disjoint(1) by metis
  have ne4: "?out \<noteq> ?oldo" using assms(3) o1 ext_disjoint(2) by metis
  have ne5: "?outc \<noteq> ?oldo" using c1 o1 ext_disjoint(3) by metis
  have oldne: "?old \<noteq> []" using assms(2) by (auto simp: HasSuffix_def newExt_def)
  have nocurr: "\<not> HasSuffix ?old currExt" using assms(2) ext_disjoint(1) by blast
  define fs1 where "fs1 = fst (os_Rename fs ?out ?outc)"
  note r1 = os_Rename_ok[OF assms(5) ne1, folded fs1_def]
  have s1: "os_Rename fs ?out ?outc = (fs1, None)"
    using r1(1) fs1_def by (metis prod.collapse)
  have old1: "map_of (files fs1) ?old = Some fp"
    using r1(3)[of ?old] assms(4,6) ne3 by simp
  define fs2 where "fs2 = fst (os_Rename fs1 ?old ?oldo)"
  note r2 = os_Rename_ok[OF old1 ne2, folded fs2_def]
  have s2: "os_Rename fs1 ?old ?oldo = (fs2, None)"
    using r2(1) fs2_def by (metis prod.collapse)
  have run: "EndRotate fs fd =
      (fs2, fd\<lparr>outputFilename := ?outc, oldFilename := [], snapOK := True\<rparr>, None)"
    unfolding EndRotate_def using assms(1,2,3) oldne nocurr
    by (simp add: Let_def s1 s2)
  have eq: "fs2 = fst (os_Rename (fst (os_Rename fs ?out ?outc)) ?old ?oldo)"
    by (simp add: fs2_def fs1_def)
  have m1: "map_of (files fs2) ?outc = Some fo"
    using r2(3)[of ?outc] r1(3)[of ?outc] ne3 ne5 by simp
  have m2: "map_of (files fs2) ?oldo = Some fp"
    using r2(3)[of ?oldo] by simp
  have m3: "map_of (files fs2) ?out = None"
    using r2(3)[of ?out] r1(3)[of ?out] ne1 ne4 assms(4) by simp
  have m4: "map_of (files fs2) ?old = None"
    using r2(3)[of ?old] ne2 by simp
  have m5: "\<forall>c. HasSuffix c currExt \<and> c \<noteq> ?outc \<longrightarrow> map_of (files fs2) c = map_of (files fs) c"
  proof (intro allI impI)
    fix c assume c: "HasSuffix c currExt \<and> c \<noteq> ?outc"
    then have "c \<noteq> ?out" "c \<noteq> ?old" "c \<noteq> ?oldo"
      using assms(2,3) o1 ext_disjoint by blast+
    then show "map_of (files fs2) c = map_of (files fs) c"
      using r2(3)[of c] r1(3)[of c] c by simp
  qed
  show ?thesis using run eq m1 m2 m3 m4 m5 by blast
qed

theorem EndRotate_demotes_new_only_witness:
  "\<not> snapOK fd_reopened \<and>
   HasSuffix (oldFilename fd_reopened) newExt \<and>
   HasSuffix (outputFilename fd_reopened) newExt \<and>
   oldFilename fd_reopened \<noteq> outputFilename fd_reopened \<and>
   map_of (files fs_reopened) (outputFilename fd_reopened) = Some (File [] True) \<and>
   map_of (files fs_reopened) (oldFilename fd_reopened) = Some (File ''Hello Again'' True) \<and>
   (\<exists>fs'. EndRotate fs_reopened fd_reopened =
            (fs', fd_reopened\<lparr>outputFilename := ''/tmp/t/nf-20150101-000009-curr.plog'',
                              oldFilename := [], snapOK := True\<rparr>, None) \<and>
          map_of (files fs') ''/tmp/t/nf-20150101-000009-curr.plog'' = Some (File [] True) \<and>
          map_of (files fs') ''/tmp/t/nf-20150101-000005-old.plog'' =
            Some (File ''Hello Again'' True) \<and>
          map_of (files fs') ''/tmp/t/nf-20150101-000000-curr.plog'' =
            Some (File ''Hello World'' True))"
proof -
  have h1: "\<not> snapOK fd_reopened" by code_simp
  have h2: "HasSuffix (oldFilename fd_reopened) newExt" by code_simp
  have h3: "HasSuffix (outputFilename fd_reopened) newExt" by code_simp
  have h4: "oldFilename fd_reopened \<noteq> outputFilename fd_reopened" by code_simp
  have h5: "map_of (files fs_reopened) (outputFilename fd_reopened) = Some (File [] True)"
    by code_simp
  have h6: "map_of (files fs_reopened) (oldFilename fd_reopened) =
      Some (File ''Hello Again'' True)"
    by code_simp
  have n1: "TrimSuffix (outputFilename fd_reopened) newExt @ currExt =
      ''/tmp/t/nf-20150101-000009-curr.plog''"
    by code_simp
  have n2: "TrimSuffix (oldFilename fd_reopened) newExt @ oldExt =
      ''/tmp/t/nf-20150101-000005-old.plog''"
    by code_simp
  have c1: "HasSuffix ''/tmp/t/nf-20150101-000000-curr.plog'' currExt" by code_simp
  have c2: "''/tmp/t/nf-20150101-000000-curr.plog'' \<noteq> ''/tmp/t/nf-20150101-000009-curr.plog''"
    by simp
  have c3: "map_of (files fs_reopened) ''/tmp/t/nf-20150101-000000-curr.plog'' =
      Some (File ''Hello World'' True)"
    by code_simp
  from EndRotate_demotes_new_only[OF h1 h2 h3 h4 h5 h6]
  obtain fs' where e: "EndRotate fs_reopened fd_reopened =
           (fs', fd_reopened\<lparr>outputFilename := ''/tmp/t/nf-20150101-000009-curr.plog'',
                    oldFilename := [], snapOK := True\<rparr>, None)"
    and m1: "map_of (files fs') ''/tmp/t/nf-20150101-000009-curr.plog'' = Some (File [] True)"
    and m2: "map_of (files fs') ''/tmp/t/nf-20150101-000005-old.plog'' =
               Some (File ''Hello Again'' True)"
    and m5: "\<forall>c. HasSuffix c currExt \<and> c \<noteq> ''/tmp/t/nf-20150101-000009-curr.plog'' \<longrightarrow>
              map_of (files fs') c = map_of (files fs_reopened) c"
    unfolding n1 n2 by blast
  from m5 c1 c2 c3 have m3: "map_of (files fs') ''/tmp/t/nf-20150101-000000-curr.plog'' =
      Some (File ''Hello World'' True)"
    by simp
  show ?thesis using h1 h2 h3 h4 h5 h6 e m1 m2 m3 by blast
qed

section \<open>Reading through the concatenating reader\<close>

lemma mr_Read_loop_closed_form:
  "mr_Read_loop ops rs cl k =
     (case dropWhile (exhausted ops k) rs of
        [] \<Rightarrow> (([], cl @ map (drained ops k) rs), [], Some EOF)
      | r # rest \<Rightarrow>
          (case rRead ops r k of
             (r', bs, err) \<Rightarrow>
               ((r' # rest, cl @ map (drained ops k) (takeWhile (exhausted ops k) rs)),
                bs, if err = Some EOF then None else err)))"
proof (induction rs arbitrary: cl)
  case Nil
  show ?case by simp
next
  case (Cons r rs)
  obtain r' bs err where rd: "rRead ops r k = (r', bs, err)"
    by (cases "rRead ops r k")
  show ?case
  proof (cases "exhausted ops k r")
    case True
    then have "bs = []" "err = Some EOF" using rd by (simp_all add: exhausted_def)
    moreover have "fst (rClose ops r') = drained ops k r"
      using rd by (simp add: drained_def)
    ultimately have step:
      "mr_Read_loop ops (r # rs) cl k = mr_Read_loop ops rs (cl @ [drained ops k r]) k"
      using rd by simp
    show ?thesis unfolding step Cons.IH using True
      by (cases "dropWhile (exhausted ops k) rs") (simp_all del: dropWhile_eq_Nil_conv)
  next
    case False
    then have "bs \<noteq> [] \<or> err \<noteq> Some EOF" using rd by (simp add: exhausted_def)
    then show ?thesis using False rd by auto
  qed
qed

text \<open>
  Claim C6. For every list of underlying readers and every buffer size, \<open>Read\<close> on the
  concatenating reader behaves as follows. The sources at the front of the list that are
  exhausted (their \<open>Read\<close> returns no bytes and \<^verbatim>\<open>io.EOF\<close>) are each read once, closed
  and removed from the list, in order. If a source remains, the first one supplies the
  result: its bytes are returned, with its error, except that \<^verbatim>\<open>io.EOF\<close> beside bytes
  becomes no error; that source, in the state its \<open>Read\<close> left it in, stays at the head
  of the list and is not closed, and the sources behind it are untouched. So a non-EOF
  error is returned at once and its source is not closed. If no source remains, the
  result is no bytes and \<^verbatim>\<open>io.EOF\<close>. \<open>Read\<close> returns \<^verbatim>\<open>io.EOF\<close> exactly when every
  source in the list is exhausted.
\<close>

theorem mr_Read_first_non_exhausted:
  "mr_Read ops mr k =
     (case dropWhile (exhausted ops k) (readClosers mr) of
        [] \<Rightarrow>
          (mr\<lparr>readClosers := [],
              closed := closed mr @ map (drained ops k) (readClosers mr)\<rparr>, [], Some EOF)
      | r # rest \<Rightarrow>
          (case rRead ops r k of
             (r', bs, err) \<Rightarrow>
               (mr\<lparr>readClosers := r' # rest,
                   closed := closed mr @
                     map (drained ops k) (takeWhile (exhausted ops k) (readClosers mr))\<rparr>,
                bs, if err = Some EOF then None else err))) \<and>
   (snd (snd (mr_Read ops mr k)) = Some EOF \<longleftrightarrow>
      (\<forall>r \<in> set (readClosers mr). exhausted ops k r))"
proof
  show c: "mr_Read ops mr k =
     (case dropWhile (exhausted ops k) (readClosers mr) of
        [] \<Rightarrow>
          (mr\<lparr>readClosers := [],
              closed := closed mr @ map (drained ops k) (readClosers mr)\<rparr>, [], Some EOF)
      | r # rest \<Rightarrow>
          (case rRead ops r k of
             (r', bs, err) \<Rightarrow>
               (mr\<lparr>readClosers := r' # rest,
                   closed := closed mr @
                     map (drained ops k) (takeWhile (exhausted ops k) (readClosers mr))\<rparr>,
                bs, if err = Some EOF then None else err)))"
    unfolding mr_Read_def mr_Read_loop_closed_form
    by (simp del: dropWhile_eq_Nil_conv split: list.splits prod.splits)
  show "snd (snd (mr_Read ops mr k)) = Some EOF \<longleftrightarrow>
      (\<forall>r \<in> set (readClosers mr). exhausted ops k r)"
  proof (cases "dropWhile (exhausted ops k) (readClosers mr)")
    case Nil
    then have all: "\<forall>r \<in> set (readClosers mr). exhausted ops k r"
      by (simp add: dropWhile_eq_Nil_conv)
    have "snd (snd (mr_Read ops mr k)) = Some EOF"
      unfolding c Nil by simp
    then show ?thesis using all by blast
  next
    case (Cons r rest)
    then have ne: "\<not> (\<forall>r \<in> set (readClosers mr). exhausted ops k r)"
      by (metis dropWhile_eq_Nil_conv list.distinct(1))
    obtain r' bs err where rd: "rRead ops r k = (r', bs, err)"
      by (cases "rRead ops r k")
    have "snd (snd (mr_Read ops mr k)) = (if err = Some EOF then None else err)"
      unfolding c Cons using rd by simp
    then have "snd (snd (mr_Read ops mr k)) \<noteq> Some EOF"
      by (cases "err = Some EOF") simp_all
    then show ?thesis using ne by blast
  qed
qed

theorem mr_Read_first_non_exhausted_witness:
  "mr_Read buf_ops (MultiReadCloser [r_empty, r_hello, r_again]) 100 =
     (\<lparr>readClosers = [r_hello\<lparr>pending := []\<rparr>, r_again],
       closed = [r_empty\<lparr>isClosed := True\<rparr>]\<rparr>, ''Hello World'', None) \<and>
   mr_Read buf_ops (MultiReadCloser [r_empty, r_broken, r_again]) 100 =
     (\<lparr>readClosers = [r_broken, r_again], closed = [r_empty\<lparr>isClosed := True\<rparr>]\<rparr>,
      [], Some (Other ''input/output error'')) \<and>
   exhausted buf_ops 100 r_empty \<and>
   snd (snd (mr_Read buf_ops (MultiReadCloser [r_empty, r_empty]) 100)) = Some EOF"
proof -
  have a: "(case dropWhile (exhausted buf_ops 100)
                  (readClosers (MultiReadCloser [r_empty, r_hello, r_again])) of
        [] \<Rightarrow>
          (MultiReadCloser [r_empty, r_hello, r_again]\<lparr>readClosers := [],
              closed := closed (MultiReadCloser [r_empty, r_hello, r_again]) @
                map (drained buf_ops 100)
                  (readClosers (MultiReadCloser [r_empty, r_hello, r_again]))\<rparr>, [], Some EOF)
      | r # rest \<Rightarrow>
          (case rRead buf_ops r 100 of
             (r', bs, err) \<Rightarrow>
               (MultiReadCloser [r_empty, r_hello, r_again]\<lparr>readClosers := r' # rest,
                   closed := closed (MultiReadCloser [r_empty, r_hello, r_again]) @
                     map (drained buf_ops 100) (takeWhile (exhausted buf_ops 100)
                       (readClosers (MultiReadCloser [r_empty, r_hello, r_again])))\<rparr>,
                bs, if err = Some EOF then None else err))) =
     (\<lparr>readClosers = [r_hello\<lparr>pending := []\<rparr>, r_again],
       closed = [r_empty\<lparr>isClosed := True\<rparr>]\<rparr>, ''Hello World'', None)"
    by code_simp
  have b: "(case dropWhile (exhausted buf_ops 100)
                  (readClosers (MultiReadCloser [r_empty, r_broken, r_again])) of
        [] \<Rightarrow>
          (MultiReadCloser [r_empty, r_broken, r_again]\<lparr>readClosers := [],
              closed := closed (MultiReadCloser [r_empty, r_broken, r_again]) @
                map (drained buf_ops 100)
                  (readClosers (MultiReadCloser [r_empty, r_broken, r_again]))\<rparr>, [], Some EOF)
      | r # rest \<Rightarrow>
          (case rRead buf_ops r 100 of
             (r', bs, err) \<Rightarrow>
               (MultiReadCloser [r_empty, r_broken, r_again]\<lparr>readClosers := r' # rest,
                   closed := closed (MultiReadCloser [r_empty, r_broken, r_again]) @
                     map (drained buf_ops 100) (takeWhile (exhausted buf_ops 100)
                       (readClosers (MultiReadCloser [r_empty, r_broken, r_again])))\<rparr>,
                bs, if err = Some EOF then None else err))) =
     (\<lparr>readClosers = [r_broken, r_again], closed = [r_empty\<lparr>isClosed := True\<rparr>]\<rparr>,
      [], Some (Other ''input/output error''))"
    by code_simp
  have c: "\<forall>r \<in> set (readClosers (MultiReadCloser [r_empty, r_empty])). exhausted buf_ops 100 r"
    by code_simp
  note T1 = mr_Read_first_non_exhausted[of buf_ops "MultiReadCloser [r_empty, r_hello, r_again]"
      100, THEN conjunct1]
  note T2 = mr_Read_first_non_exhausted[of buf_ops "MultiReadCloser [r_empty, r_broken, r_again]"
      100, THEN conjunct1]
  note T3 = mr_Read_first_non_exhausted[of buf_ops "MultiReadCloser [r_empty, r_empty]"
      100, THEN conjunct2]
  from T3 c have d: "snd (snd (mr_Read buf_ops (MultiReadCloser [r_empty, r_empty]) 100)) =
      Some EOF"
    by blast
  have e: "exhausted buf_ops 100 r_empty"
    by code_simp
  show ?thesis using T1[unfolded a] T2[unfolded b] e d by blast
qed

section \<open>Closing the concatenating reader\<close>

lemma mr_Close_empty: "readClosers (fst (mr_Close ops mr)) = []"
  by (simp add: mr_Close_def split: prod.splits)

lemma mr_Read_empty:
  "readClosers mr = [] \<Longrightarrow> mr_Read ops mr k = (mr, [], Some EOF)"
  by (cases mr) (simp add: mr_Read_def)

lemma mr_Close_again:
  "readClosers mr = [] \<Longrightarrow> mr_Close ops mr = (mr, None)"
  by (cases mr) (simp add: mr_Close_def)

lemma mr_run_empty:
  "readClosers mr = [] \<Longrightarrow>
   mr_run ops mr cs =
     (mr, map (\<lambda>c. case c of CallRead k \<Rightarrow> ([], Some EOF) | CallClose \<Rightarrow> ([], None)) cs)"
proof (induction cs)
  case Nil
  show ?case by simp
next
  case (Cons c cs)
  then show ?case
    by (cases c) (simp_all add: mr_Read_empty mr_Close_again)
qed

text \<open>
  Claim C10. After \<open>Close\<close> the list of readers is empty, and whatever calls follow,
  every \<open>Read\<close> returns no bytes with \<^verbatim>\<open>io.EOF\<close> and every further \<open>Close\<close> returns no
  error; none of them changes the concatenating reader or closes any reader again.
\<close>

theorem mr_Close_then_EOF:
  "readClosers (fst (mr_Close ops mr)) = [] \<and>
   mr_run ops (fst (mr_Close ops mr)) cs =
     (fst (mr_Close ops mr),
      map (\<lambda>c. case c of CallRead k \<Rightarrow> ([], Some EOF) | CallClose \<Rightarrow> ([], None)) cs)"
  using mr_Close_empty mr_run_empty by blast

theorem mr_Close_then_EOF_witness:
  "mr_Close buf_ops (MultiReadCloser [r_hello, r_again]) =
     (\<lparr>readClosers = [],
       closed = [r_hello\<lparr>isClosed := True\<rparr>, r_again\<lparr>isClosed := True\<rparr>]\<rparr>, None) \<and>
   mr_run buf_ops
     \<lparr>readClosers = [],
      closed = [r_hello\<lparr>isClosed := True\<rparr>, r_again\<lparr>isClosed := True\<rparr>]\<rparr>
     [CallRead 100, CallClose, CallRead 5] =
     (\<lparr>readClosers = [],
       closed = [r_hello\<lparr>isClosed := True\<rparr>, r_again\<lparr>isClosed := True\<rparr>]\<rparr>,
      [([], Some EOF), ([], None), ([], Some EOF)])"
proof -
  have a: "mr_Close buf_ops (MultiReadCloser [r_hello, r_again]) =
     (\<lparr>readClosers = [],
       closed = [r_hello\<lparr>isClosed := True\<rparr>, r_again\<lparr>isClosed := True\<rparr>]\<rparr>, None)"
    by code_simp
  from mr_Close_then_EOF[of buf_ops "MultiReadCloser [r_hello, r_again]"
      "[CallRead 100, CallClose, CallRead 5]"]
  show ?thesis unfolding a by simp
qed

section \<open>Byte accounting and the rotation trigger\<close>

lemma Write_keeps:
  "Write dst pl p = (pl', n, e) \<Longrightarrow>
     rotating pl' = rotating pl \<and> sizeLimit pl' = sizeLimit pl \<and> pLogError pl' = pLogError pl \<and>
     encoder pl' = encoder pl \<and> objects pl' = objects pl \<and> errState pl' = (if errState pl \<noteq> None then errState pl else if e \<noteq> None then e else None)"
  by (auto simp: Write_def Let_def split: if_splits prod.splits option.splits)

lemma Write_rotating:
  "rotating pl \<Longrightarrow> size_pl (fst (Write dst pl p)) = size_pl pl"
  by (auto simp: Write_def Let_def split: if_splits prod.splits option.splits)

lemma Write_rotating_replay:
  "rotating pl \<Longrightarrow> errState pl = None \<Longrightarrow>
     sizeReplay (fst (Write dst pl p)) = sizeReplay pl + int (length p)"
  by (auto simp: Write_def Let_def split: if_splits prod.splits option.splits)

lemma Write_not_rotating:
  "\<not> rotating pl \<Longrightarrow> errState pl = None \<Longrightarrow>
     size_pl (fst (Write dst pl p)) = size_pl pl + int (length p) \<and>
     sizeReplay (fst (Write dst pl p)) = sizeReplay pl"
  by (auto simp: Write_def Let_def split: if_splits prod.splits option.splits)

lemma write_chunks_keeps:
  "write_chunks dst pl ps = (pl', e) \<Longrightarrow>
     rotating pl' = rotating pl \<and> sizeLimit pl' = sizeLimit pl \<and> pLogError pl' = pLogError pl \<and>
     (rotating pl \<longrightarrow> size_pl pl' = size_pl pl)"
proof (induction ps arbitrary: pl)
  case Nil
  then show ?case by simp
next
  case (Cons p ps)
  obtain pl1 n e1 where w: "Write dst pl p = (pl1, n, e1)" by (cases "Write dst pl p")
  have k: "rotating pl1 = rotating pl" "sizeLimit pl1 = sizeLimit pl" "pLogError pl1 = pLogError pl"
    using Write_keeps[OF w] by simp_all
  have s: "rotating pl \<longrightarrow> size_pl pl1 = size_pl pl"
    using Write_rotating[of pl dst p] w by simp
  show ?case
  proof (cases e1)
    case None
    then have "write_chunks dst pl1 ps = (pl', e)" using Cons.prems w by simp
    from Cons.IH[OF this] show ?thesis using k s by simp
  next
    case (Some err)
    then have "pl' = pl1" using Cons.prems w by simp
    then show ?thesis using k s by simp
  qed
qed

lemma Encode_keeps:
  "Encode dst cdc pl n ev = (pl', e) \<Longrightarrow>
     rotating pl' = rotating pl \<and> sizeLimit pl' = sizeLimit pl \<and> pLogError pl' = pLogError pl \<and>
     (rotating pl \<longrightarrow> size_pl pl' = size_pl pl)"
  by (auto simp: Encode_def split: prod.splits dest: write_chunks_keeps)

lemma Output_sticky:
  "errState pl = Some E \<Longrightarrow> Output dst cdc pl ev = (pl\<lparr>pLogError := True\<rparr>, Some E, False)"
  by (simp add: Output_def)

lemma Output_started:
  "snd (snd (Output dst cdc pl ev)) \<longleftrightarrow>
      errState pl = None \<and>
      (\<exists>n. encoder pl = Some n \<and>
         (case Encode dst cdc (pl\<lparr>pLogError := False, objects := objects pl + 1\<rparr>) n ev of
            (pl2, err) \<Rightarrow> err = None \<and> \<not> rotating pl \<and> size_pl pl2 > sizeLimit pl))"
proof (cases "errState pl")
  case (Some E)
  then show ?thesis by (simp add: Output_def)
next
  case None
  show ?thesis
  proof (cases "encoder pl")
    case enc: None
    then show ?thesis using None by (simp add: Output_def)
  next
    case enc: (Some n)
    obtain pl2 err where e:
      "Encode dst cdc (pl\<lparr>pLogError := False, objects := objects pl + 1\<rparr>) n ev = (pl2, err)"
      by (cases "Encode dst cdc (pl\<lparr>pLogError := False, objects := objects pl + 1\<rparr>) n ev")
    have k: "rotating pl2 = rotating pl" "sizeLimit pl2 = sizeLimit pl"
      using Encode_keeps[OF e] by simp_all
    show ?thesis using None enc e k
      by (auto simp: Output_def rotate_def)
  qed
qed

lemma Output_keeps:
  "sizeLimit (fst (Output dst cdc pl ev)) = sizeLimit pl \<and>
   (snd (snd (Output dst cdc pl ev)) \<longrightarrow> rotating (fst (Output dst cdc pl ev))) \<and>
   (rotating pl \<longrightarrow> size_pl (fst (Output dst cdc pl ev)) = size_pl pl)"
proof (cases "errState pl")
  case (Some E)
  then show ?thesis by (simp add: Output_def)
next
  case None
  show ?thesis
  proof (cases "encoder pl")
    case enc: None
    then show ?thesis using None by (simp add: Output_def)
  next
    case enc: (Some n)
    obtain pl2 err where e:
      "Encode dst cdc (pl\<lparr>pLogError := False, objects := objects pl + 1\<rparr>) n ev = (pl2, err)"
      by (cases "Encode dst cdc (pl\<lparr>pLogError := False, objects := objects pl + 1\<rparr>) n ev")
    have k: "rotating pl2 = rotating pl" "sizeLimit pl2 = sizeLimit pl"
      "rotating pl \<longrightarrow> size_pl pl2 = size_pl pl"
      using Encode_keeps[OF e] by simp_all
    show ?thesis using None enc e k
      by (auto simp: Output_def rotate_def)
  qed
qed

lemma outputs_sizeLimit: "sizeLimit (outputs dst cdc pl evs) = sizeLimit pl"
  by (induction evs arbitrary: pl) (simp_all add: Output_keeps)

lemma NewLog_sizeLimit:
  "NewLog dst cdc cl pri c rrs = (c', Inr pl0) \<Longrightarrow> sizeLimit pl0 = 1024 * 1024"
  by (auto simp: NewLog_def Let_def outputs_sizeLimit split: prod.splits option.splits)

text \<open>
  Claim C5. \<open>Output\<close> starts a rotation task exactly when no sticky error is set, an
  encoder is bound, the encoding of the event succeeds, no rotation was in progress and
  the post-snapshot counter \<open>size_pl\<close>, after the encoder's writes, is strictly above
  \<open>sizeLimit\<close>; the coordinator is then rotating. While a rotation is in progress a write
  through the sink leaves \<open>size_pl\<close> as it is and adds its length to \<open>sizeReplay\<close>, and
  a whole \<open>Output\<close> leaves \<open>size_pl\<close> as it is; outside a rotation the length goes to
  \<open>size_pl\<close> and \<open>sizeReplay\<close> is untouched. A coordinator returned by \<open>NewLog\<close> has
  the limit 1024 * 1024.
\<close>

theorem Output_schedules_rotation:
  "(snd (snd (Output dst cdc pl ev)) \<longleftrightarrow>
      errState pl = None \<and>
      (\<exists>n. encoder pl = Some n \<and>
         (case Encode dst cdc (pl\<lparr>pLogError := False, objects := objects pl + 1\<rparr>) n ev of
            (pl2, err) \<Rightarrow> err = None \<and> \<not> rotating pl \<and> size_pl pl2 > sizeLimit pl))) \<and>
   (snd (snd (Output dst cdc pl ev)) \<longrightarrow> rotating (fst (Output dst cdc pl ev))) \<and>
   (rotating pl \<longrightarrow>
      size_pl (fst (Write dst pl p)) = size_pl pl \<and>
      (errState pl = None \<longrightarrow>
         sizeReplay (fst (Write dst pl p)) = sizeReplay pl + int (length p)) \<and>
      size_pl (fst (Output dst cdc pl ev)) = size_pl pl) \<and>
   (\<not> rotating pl \<and> errState pl = None \<longrightarrow>
      size_pl (fst (Write dst pl p)) = size_pl pl + int (length p) \<and>
      sizeReplay (fst (Write dst pl p)) = sizeReplay pl) \<and>
   (\<forall>cl pri c rrs c' pl0.
      NewLog dst cdc cl pri c rrs = (c', Inr pl0) \<longrightarrow> sizeLimit pl0 = 1024 * 1024)"
proof (intro conjI allI impI)
  show "snd (snd (Output dst cdc pl ev)) \<longleftrightarrow>
      errState pl = None \<and>
      (\<exists>n. encoder pl = Some n \<and>
         (case Encode dst cdc (pl\<lparr>pLogError := False, objects := objects pl + 1\<rparr>) n ev of
            (pl2, err) \<Rightarrow> err = None \<and> \<not> rotating pl \<and> size_pl pl2 > sizeLimit pl))"
    by (rule Output_started)
  show "snd (snd (Output dst cdc pl ev)) \<Longrightarrow> rotating (fst (Output dst cdc pl ev))"
    using Output_keeps[of dst cdc pl ev] by simp
  show "rotating pl \<Longrightarrow> size_pl (fst (Write dst pl p)) = size_pl pl"
    by (rule Write_rotating)
  show "rotating pl \<Longrightarrow> errState pl = None \<Longrightarrow>
      sizeReplay (fst (Write dst pl p)) = sizeReplay pl + int (length p)"
    by (rule Write_rotating_replay)
  show "rotating pl \<Longrightarrow> size_pl (fst (Output dst cdc pl ev)) = size_pl pl"
    using Output_keeps[of dst cdc pl ev] by simp
  show "\<not> rotating pl \<and> errState pl = None \<Longrightarrow>
      size_pl (fst (Write dst pl p)) = size_pl pl + int (length p)"
    using Write_not_rotating[of pl dst p] by simp
  show "\<not> rotating pl \<and> errState pl = None \<Longrightarrow>
      sizeReplay (fst (Write dst pl p)) = sizeReplay pl"
    using Write_not_rotating[of pl dst p] by simp
  show "\<And>cl pri c rrs c' pl0.
      NewLog dst cdc cl pri c rrs = (c', Inr pl0) \<Longrightarrow> sizeLimit pl0 = 1024 * 1024"
    by (rule NewLog_sizeLimit)
qed

lemma new_log: "NewLog quota_dest line_codec keeper 20 [] [] = ([], Inr pl_new)"
  by code_simp

lemma output_hello:
  "Output quota_dest line_codec pl_limit ''Hello World!'' = (pl_scheduled, None, True)"
  by code_simp

lemma encode_hello:
  "Encode quota_dest line_codec (pl_limit\<lparr>pLogError := False, objects := objects pl_limit + 1\<rparr>)
     0 ''Hello World!'' = (pl_scheduled\<lparr>rotating := False\<rparr>, None)"
  by code_simp

lemma pl_facts:
  "size_pl pl_scheduled = 12" "sizeLimit pl_limit = 10" "rotating pl_scheduled"
  "\<not> rotating pl_limit" "errState pl_limit = None" "encoder pl_limit = Some 0"
  "errState pl_scheduled = None" "sizeReplay pl_scheduled = 0"
  by code_simp+

theorem Output_schedules_rotation_witness:
  "errState pl_limit = None \<and> encoder pl_limit = Some 0 \<and> \<not> rotating pl_limit \<and>
   sizeLimit pl_limit = 10 \<and>
   Encode quota_dest line_codec (pl_limit\<lparr>pLogError := False, objects := objects pl_limit + 1\<rparr>)
     0 ''Hello World!'' = (pl_scheduled\<lparr>rotating := False\<rparr>, None) \<and>
   size_pl (pl_scheduled\<lparr>rotating := False\<rparr>) = 12 \<and>
   snd (snd (Output quota_dest line_codec pl_limit ''Hello World!'')) \<and>
   rotating pl_scheduled \<and> errState pl_scheduled = None \<and>
   size_pl (fst (Write quota_dest pl_scheduled ''snap'')) = 12 \<and>
   sizeReplay (fst (Write quota_dest pl_scheduled ''snap'')) = 4 \<and>
   size_pl (fst (Output quota_dest line_codec pl_scheduled ''snap'')) = 12 \<and>
   NewLog quota_dest line_codec keeper 20 [] [] = ([], Inr pl_new) \<and>
   sizeLimit pl_new = 1024 * 1024"
proof -
  note T = Output_schedules_rotation[of quota_dest line_codec pl_limit "''Hello World!''" "''snap''"]
  note U = Output_schedules_rotation[of quota_dest line_codec pl_scheduled "''snap''" "''snap''"]
  have s: "size_pl (pl_scheduled\<lparr>rotating := False\<rparr>) = 12"
    using pl_facts(1) by simp
  have a: "snd (snd (Output quota_dest line_codec pl_limit ''Hello World!''))"
    using T[THEN conjunct1] pl_facts(2,4,5,6) encode_hello s by simp
  have b: "size_pl (fst (Write quota_dest pl_scheduled ''snap'')) = 12"
    "sizeReplay (fst (Write quota_dest pl_scheduled ''snap'')) = 4"
    "size_pl (fst (Output quota_dest line_codec pl_scheduled ''snap'')) = 12"
    using U[THEN conjunct2, THEN conjunct2, THEN conjunct1] pl_facts(1,3,7,8) by simp_all
  have c: "sizeLimit pl_new = 1024 * 1024"
    using U[THEN conjunct2, THEN conjunct2, THEN conjunct2, THEN conjunct2, rule_format,
        OF new_log] .
  show ?thesis using pl_facts(2,3,4,5,6,7) encode_hello s a b new_log c by simp
qed

section \<open>An unbound encoder\<close>

text \<open>
  Claim C9. When no sticky error is set and the encoder is nil, \<open>Output\<close> returns the
  error "uninitialized persistence log (nil encoder)", starts no rotation and changes
  nothing but the latch of the log line; \<open>HealthCheck\<close> still returns nil afterwards. A
  later \<open>Output\<close> is not met by a sticky error: it fails in the same way while the encoder
  is still nil, and once an encoder is bound it behaves as if the failed call had never
  been made.
\<close>

theorem Output_nil_encoder:
  assumes "errState pl = None" and "encoder pl = None"
  shows "Output dst cdc pl ev = (pl\<lparr>pLogError := False\<rparr>, Some Uninitialized, False) \<and>
         HealthCheck (fst (Output dst cdc pl ev)) = None \<and>
         Output dst cdc (fst (Output dst cdc pl ev)) ev' =
           (pl\<lparr>pLogError := False\<rparr>, Some Uninitialized, False) \<and>
         Output dst cdc ((fst (Output dst cdc pl ev))\<lparr>encoder := Some n\<rparr>) ev' =
           Output dst cdc (pl\<lparr>encoder := Some n\<rparr>) ev'"
  using assms by (simp add: Output_def HealthCheck_def)

theorem Output_nil_encoder_witness:
  "errState pl_zero = None \<and> encoder pl_zero = None \<and>
   Output quota_dest line_codec pl_zero ''Hello World'' = (pl_zero, Some Uninitialized, False) \<and>
   HealthCheck (fst (Output quota_dest line_codec pl_zero ''Hello World'')) = None \<and>
   Output quota_dest line_codec
     ((fst (Output quota_dest line_codec pl_zero ''Hello World''))\<lparr>encoder := Some 0\<rparr>)
     ''Hello Again'' =
     (pl_zero\<lparr>size_pl := 11, objects := 1, encoder := Some 1, priDest := 9, rotating := True\<rparr>,
      None, True)"
proof -
  have h: "errState pl_zero = None" "encoder pl_zero = None" by code_simp+
  have z: "pl_zero\<lparr>pLogError := False\<rparr> = pl_zero" by code_simp
  have o: "Output quota_dest line_codec (pl_zero\<lparr>encoder := Some 0\<rparr>) ''Hello Again'' =
     (pl_zero\<lparr>size_pl := 11, objects := 1, encoder := Some 1, priDest := 9, rotating := True\<rparr>,
      None, True)"
    by code_simp
  note T = Output_nil_encoder[OF h, of quota_dest line_codec "''Hello World''" "''Hello Again''" 0,
      unfolded z o]
  show ?thesis using h T by blast
qed

section \<open>The sticky error\<close>

lemma errState_kept:
  assumes "errState pl \<noteq> None"
  shows "errState (fst (Write dst pl p)) \<noteq> None"
    and "errState (fst (Output dst cdc pl ev)) \<noteq> None"
    and "errState (fst (finishRotate_start dst cdc pl)) \<noteq> None"
    and "errState (finishRotate_end dst pl) \<noteq> None"
    and "errState (SetSizeLimit pl bytes) \<noteq> None"
  using assms
  by (auto simp: Write_def Output_def finishRotate_start_def finishRotate_end_def
      SetSizeLimit_def Let_def split: prod.splits option.splits)

lemma outputs_sticky:
  "errState pl = Some E \<Longrightarrow>
   outputs dst cdc pl evs = (if evs = [] then pl else pl\<lparr>pLogError := True\<rparr>)"
proof (induction evs arbitrary: pl)
  case Nil
  show ?case by simp
next
  case (Cons ev evs)
  have "errState (pl\<lparr>pLogError := True\<rparr>) = Some E" using Cons.prems by simp
  from Cons.IH[OF this] show ?case using Cons.prems by (simp add: Output_sticky)
qed

text \<open>
  Claim C1, as the code has it. With the sticky error \<open>E\<close> set, \<open>HealthCheck\<close> returns
  \<open>E\<close> and \<open>Output\<close> returns \<open>E\<close> and writes nothing. No operation of the coordinator
  sets the error state back to nil: not \<open>Output\<close>, not the sink, not either half of a
  rotation. In particular, after a rotation whose \<open>StartRotate\<close> and \<open>EndRotate\<close> both
  succeed on the primary destination (whatever events are output in between), the
  coordinator is no longer rotating, \<open>HealthCheck\<close> still returns \<open>E\<close> and \<open>Output\<close>
  still returns \<open>E\<close>: the rotation does not clear the error.
\<close>

theorem errState_survives_rotation:
  assumes "errState pl = Some E"
  shows "HealthCheck pl = Some E \<and>
         Output dst cdc pl ev = (pl\<lparr>pLogError := True\<rparr>, Some E, False) \<and>
         errState (fst (Write dst pl p)) \<noteq> None \<and>
         errState (fst (finishRotate_start dst cdc pl)) \<noteq> None \<and>
         errState (finishRotate_end dst pl) \<noteq> None \<and>
         (\<forall>d1 d2. dStartRotate dst (priDest pl) = (d1, None) \<and> dEndRotate dst d1 = (d2, None) \<longrightarrow>
            HealthCheck (finishRotate dst cdc pl evs) = Some E \<and>
            \<not> rotating (finishRotate dst cdc pl evs) \<and>
            priDest (finishRotate dst cdc pl evs) = d2 \<and>
            fst (snd (Output dst cdc (finishRotate dst cdc pl evs) ev)) = Some E)"
proof (intro conjI allI impI)
  show "HealthCheck pl = Some E" using assms by (simp add: HealthCheck_def)
  show "Output dst cdc pl ev = (pl\<lparr>pLogError := True\<rparr>, Some E, False)"
    using assms by (rule Output_sticky)
  show "errState (fst (Write dst pl p)) \<noteq> None"
    "errState (fst (finishRotate_start dst cdc pl)) \<noteq> None"
    "errState (finishRotate_end dst pl) \<noteq> None"
    using errState_kept[of pl] assms by simp_all
next
  fix d1 d2
  assume h: "dStartRotate dst (priDest pl) = (d1, None) \<and> dEndRotate dst d1 = (d2, None)"
  obtain pl1 where s: "finishRotate_start dst cdc pl = (pl1, True)"
    and e1: "errState pl1 = Some E" and d: "priDest pl1 = d1"
    using assms h
    by (auto simp: finishRotate_start_def Let_def split: option.splits)
  let ?pl2 = "outputs dst cdc pl1 evs"
  have e2: "errState ?pl2 = Some E" and d2: "priDest ?pl2 = d1"
    using outputs_sticky[OF e1, of dst cdc evs] e1 d by (simp_all split: if_splits)
  have f: "finishRotate dst cdc pl evs = finishRotate_end dst ?pl2"
    using s by (simp add: finishRotate_def)
  have e3: "errState (finishRotate_end dst ?pl2) = Some E"
    and r3: "\<not> rotating (finishRotate_end dst ?pl2)"
    and d3: "priDest (finishRotate_end dst ?pl2) = d2"
    using e2 d2 h
    by (auto simp: finishRotate_end_def Let_def split: option.splits)
  show "HealthCheck (finishRotate dst cdc pl evs) = Some E"
    "\<not> rotating (finishRotate dst cdc pl evs)"
    "priDest (finishRotate dst cdc pl evs) = d2"
    "fst (snd (Output dst cdc (finishRotate dst cdc pl evs) ev)) = Some E"
    unfolding f using e3 r3 d3 by (simp_all add: HealthCheck_def Output_sticky)
qed

lemma pl_failed_err: "errState pl_failed = Some (Other ''no space left on device'')"
  by code_simp

lemma output_again:
  "fst (snd (Output quota_dest line_codec pl_scheduled ''Hello Again'')) =
     Some (Other ''no space left on device'')"
  by code_simp

lemma rotate_ok:
  "dStartRotate quota_dest (priDest pl_failed) = (1000, None)"
  "dEndRotate quota_dest (1000::nat) = (1000, None)"
  by code_simp+

theorem errState_survives_rotation_witness:
  "NewLog quota_dest line_codec keeper 20 [] [] = ([], Inr pl_new) \<and>
   Output quota_dest line_codec (SetSizeLimit pl_new 10) ''Hello World!'' =
     (pl_scheduled, None, True) \<and>
   fst (snd (Output quota_dest line_codec pl_scheduled ''Hello Again'')) =
     Some (Other ''no space left on device'') \<and>
   errState pl_failed = Some (Other ''no space left on device'') \<and>
   dStartRotate quota_dest (priDest pl_failed) = (1000, None) \<and>
   dEndRotate quota_dest (1000::nat) = (1000, None) \<and>
   \<not> rotating (finishRotate quota_dest line_codec pl_failed [''snap'']) \<and>
   priDest (finishRotate quota_dest line_codec pl_failed [''snap'']) = 1000 \<and>
   HealthCheck (finishRotate quota_dest line_codec pl_failed [''snap'']) =
     Some (Other ''no space left on device'') \<and>
   fst (snd (Output quota_dest line_codec
               (finishRotate quota_dest line_codec pl_failed [''snap'']) ''Hello'')) =
     Some (Other ''no space left on device'')"
proof -
  note T = errState_survives_rotation[OF pl_failed_err, of quota_dest line_codec "''Hello''"
      "''Hello''" "[''snap'']"]
  from T have "\<forall>d1 d2. dStartRotate quota_dest (priDest pl_failed) = (d1, None) \<and>
        dEndRotate quota_dest d1 = (d2, None) \<longrightarrow>
        HealthCheck (finishRotate quota_dest line_codec pl_failed [''snap'']) =
          Some (Other ''no space left on device'') \<and>
        \<not> rotating (finishRotate quota_dest line_codec pl_failed [''snap'']) \<and>
        priDest (finishRotate quota_dest line_codec pl_failed [''snap'']) = d2 \<and>
        fst (snd (Output quota_dest line_codec
               (finishRotate quota_dest line_codec pl_failed [''snap'']) ''Hello'')) =
          Some (Other ''no space left on device'')"
    by blast
  with rotate_ok have r:
    "HealthCheck (finishRotate quota_dest line_codec pl_failed [''snap'']) =
          Some (Other ''no space left on device'')"
    "\<not> rotating (finishRotate quota_dest line_codec pl_failed [''snap''])"
    "priDest (finishRotate quota_dest line_codec pl_failed [''snap'']) = 1000"
    "fst (snd (Output quota_dest line_codec
               (finishRotate quota_dest line_codec pl_failed [''snap'']) ''Hello'')) =
          Some (Other ''no space left on device'')"
    by blast+
  have o: "Output quota_dest line_codec (SetSizeLimit pl_new 10) ''Hello World!'' =
     (pl_scheduled, None, True)"
    using output_hello by (simp add: pl_limit_def)
  show ?thesis using new_log o output_again pl_failed_err rotate_ok r by blast
qed

section \<open>Errors of replay\<close>

text \<open>
  What holds of \<open>replay\<close> for every application and all sources: a replay that returns
  no error has passed every event of every source to \<open>Replay\<close>, source after source
  and in order; the error built for a failing \<open>Replay\<close> does not depend on the index of
  the source; a failed replay makes \<open>NewLog\<close> return no coordinator and that error.
\<close>

lemma replay_source_in_order:
  "replay_source cl i count c rr = (c', None) \<Longrightarrow>
     c' = foldl (\<lambda>c x. case x of Inr ev \<Rightarrow> fst (Replay cl c ev) | Inl _ \<Rightarrow> c) c rr"
proof (induction rr arbitrary: count c)
  case Nil
  then show ?case by simp
next
  case (Cons x rr)
  show ?case
  proof (cases x)
    case (Inl err)
    then show ?thesis using Cons.prems by simp
  next
    case (Inr ev)
    obtain c1 e where r: "Replay cl c ev = (c1, e)" by (cases "Replay cl c ev")
    show ?thesis
    proof (cases e)
      case None
      then have "replay_source cl i (count + 1) c1 rr = (c', None)"
        using Cons.prems Inr r by simp
      from Cons.IH[OF this] show ?thesis using Inr r by simp
    next
      case (Some err)
      then show ?thesis using Cons.prems Inr r by simp
    qed
  qed
qed

lemma replay_in_order:
  "replay_from cl i c rrs = (c', None) \<Longrightarrow>
     c' = foldl (\<lambda>c x. case x of Inr ev \<Rightarrow> fst (Replay cl c ev) | Inl _ \<Rightarrow> c) c (concat rrs)"
proof (induction rrs arbitrary: i c)
  case Nil
  then show ?case by simp
next
  case (Cons rr rrs)
  obtain c1 e where r: "replay_source cl i 0 c rr = (c1, e)"
    by (cases "replay_source cl i 0 c rr")
  show ?case
  proof (cases e)
    case None
    then have "replay_from cl (i + 1) c1 rrs = (c', None)"
      using Cons.prems r by simp
    from Cons.IH[OF this] show ?thesis
      using replay_source_in_order[of cl i 0 c rr c1] r None by simp
  next
    case (Some err)
    then show ?thesis using Cons.prems r by simp
  qed
qed

lemma replay_source_index_free:
  "replay_source cl i count c rr = (c', Some (ReplayFailed k e)) \<Longrightarrow>
     replay_source cl j count c rr = (c', Some (ReplayFailed k e))"
proof (induction rr arbitrary: count c)
  case Nil
  then show ?case by simp
next
  case (Cons x rr)
  show ?case
  proof (cases x)
    case (Inl err)
    then show ?thesis using Cons.prems by simp
  next
    case (Inr ev)
    obtain c1 e1 where r: "Replay cl c ev = (c1, e1)" by (cases "Replay cl c ev")
    show ?thesis
    proof (cases e1)
      case None
      then have "replay_source cl i (count + 1) c1 rr = (c', Some (ReplayFailed k e))"
        using Cons.prems Inr r by simp
      from Cons.IH[OF this] show ?thesis using Inr r None by simp
    next
      case (Some err)
      then show ?thesis using Cons.prems Inr r by simp
    qed
  qed
qed

lemma NewLog_replay_fails:
  "replay cl c rrs = (c', Some err) \<Longrightarrow> NewLog dst cdc cl pri c rrs = (c', Inl err)"
  by (simp add: NewLog_def)

text \<open>
  Claim C4, evaluated. The application \<open>keeper\<close> refuses the event \<^verbatim>\<open>bad\<close>. Whether that
  event is the first of the first replay source or the first of the second, \<open>replay\<close>
  returns the same error, "replay failed on entry 1": it holds the ordinal of the event
  and not the index of the source. The error of a failed decode holds both, here source
  2 after 0 entries. \<open>NewLog\<close> returns no coordinator and the error of the replay.
\<close>

theorem replay_error_without_source_index:
  "replay keeper [] [[Inr ''bad'']] =
     ([], Some (ReplayFailed 1 (Other ''invalid replay record type''))) \<and>
   replay keeper [] [[], [Inr ''bad'']] =
     ([], Some (ReplayFailed 1 (Other ''invalid replay record type''))) \<and>
   replay keeper [] [[Inr ''a''], [Inl (Other ''unexpected EOF'')]] =
     ([''a''], Some (ReplayDecodeFailed 2 0 (Other ''unexpected EOF''))) \<and>
   NewLog quota_dest line_codec keeper (20::nat) [] [[], [Inr ''bad'']] =
     ([], Inl (ReplayFailed 1 (Other ''invalid replay record type'')))"
  by code_simp

end
